theory Spec2Isabelle
  imports Complex_Main
begin

section \<open>The accounts registry of \<open>src/accounts/AccountsContext.tsx\<close>\<close>

text \<open>
  The provider component keeps a JavaScript \<open>Map\<close> from address to account object, a
  selected index, and two \<open>localStorage\<close> slots. Its callbacks and effects are embedded
  as functions on an explicit state. Account objects live in an object store, because
  \<open>reinitializePolkadotAccountsWithBalance\<close> assigns to fields of objects that the
  registry's map refers to.
\<close>

subsection \<open>Data\<close>

datatype SignerTypeEnum = Ethereum | Polkadot

text \<open>A thrown JavaScript value (an \<open>Error\<close> with its message).\<close>

datatype error = Error string

text \<open>How a callback's promise settles.\<close>

datatype outcome = Resolved | Rejected error

text \<open>
  A JavaScript number: a binary64 value. The finite values are given by the rational they
  stand for; the sign of zero is not kept.
\<close>

datatype number = Num rat | PosInfinity | NegInfinity | NaN

text \<open>
  The fields of \<open>Account\<close> that the component reads or writes. \<open>signer\<close> and \<open>sign\<close> are
  opaque capabilities handed out by a wallet extension: a handle, or \<open>None\<close> for
  \<open>undefined\<close>. \<open>balance\<close> is a JavaScript number, or \<open>None\<close> for \<open>undefined\<close>.
\<close>

record Account =
  address :: string
  signerType :: SignerTypeEnum
  name :: string
  signer :: "nat option"
  normalizedAddress :: string
  sign :: "nat option"
  walletType :: "string option"
  balance :: "number option"

text \<open>
  The answer of \<open>sdk.balance.get\<close>: \<open>available\<close> is the integer that the string spells
  out, \<open>decimals\<close> the integer that the number holds.
\<close>

record balanceResponse =
  available :: int
  decimals :: nat

text \<open>
  The text held by the \<open>accounts\<close> slot of \<open>localStorage\<close>, seen through \<open>JSON.parse\<close>:
  either it parses to an array of \<open>[key, account]\<close> entries, or \<open>JSON.parse\<close> (or the
  \<open>new Map(...)\<close> fed with its result) throws on it; the second case keeps the text, since
  the empty string is falsy.
\<close>

datatype saved = Entries "(string \<times> Account) list" | Unparsable string

text \<open>
  The state of the provider: the object store (a reference is an index into \<open>heap\<close>), the
  \<open>accounts\<close> map as its entries in insertion order, the selected index, the two
  \<open>localStorage\<close> slots, the \<open>console.error\<close> lines and the \<open>alert\<close> texts.
\<close>

record state =
  heap :: "Account list"
  accounts :: "(string \<times> nat) list"
  selectedAccountId :: int
  savedAccounts :: "saved option"
  savedId :: "int option"
  console :: "string list"
  alerts :: "string list"

text \<open>
  What the component gets from outside: the SDK of \<open>SdkContext\<close> (\<open>None\<close> while it is
  undefined) reduced to \<open>sdk.balance.get\<close>, the \<open>address\<close> of wagmi's \<open>useAccount\<close>,
  \<open>Address.extract.substrateOrMirrorIfEthereumNormalized\<close>, the account listing of
  \<open>new PolkadotWallet(walletType).getAccounts()\<close> and \<open>connectWallet\<close> of
  \<open>useWalletCenter\<close>. The two listings return maps of freshly built account objects,
  given here as entries in iteration order.
\<close>

record env =
  sdk :: "(string \<Rightarrow> error + balanceResponse) option"
  useAccount_address :: "string option"
  substrateOrMirrorIfEthereumNormalized :: "string \<Rightarrow> string"
  getAccounts :: "string option \<Rightarrow> error + (string \<times> Account) list"
  connectWallet :: "string \<Rightarrow> error + (string \<times> Account) list"

subsection \<open>JavaScript numbers\<close>

text \<open>The number of binary digits of a positive integer.\<close>

function bitlen :: "int \<Rightarrow> int" where
  "bitlen n = (if n \<le> 0 then 0 else 1 + bitlen (n div 2))"
  by pat_completeness auto
termination
  by (relation "measure nat") auto

declare bitlen.simps [simp del]

definition pow2 :: "int \<Rightarrow> rat" where
  "pow2 k = (if 0 \<le> k then 2 ^ nat k else 1 / 2 ^ nat (- k))"

text \<open>
  The binary exponent of a positive rational \<open>x\<close>, the \<open>e\<close> with
  \<open>2 ^ e \<le> x < 2 ^ (e + 1)\<close>: from the digits of the integer part, or for \<open>x < 1\<close> from
  those of the reciprocal.
\<close>

definition ilog2 :: "rat \<Rightarrow> int" where
  "ilog2 x = (if 1 \<le> x then bitlen \<lfloor>x\<rfloor> - 1 else - bitlen (\<lceil>1 / x\<rceil> - 1))"

definition roundHalfEven :: "rat \<Rightarrow> int" where
  "roundHalfEven y =
     (let f = \<lfloor>y\<rfloor>; d = y - of_int f
      in if d < 1 / 2 then f else if 1 / 2 < d then f + 1 else if even f then f else f + 1)"

text \<open>
  Rounding to the nearest binary64 value, ties to the even significand. The significand
  has 53 bits; the exponent is at least \<open>- 1022\<close>, below which the spacing stays
  \<open>2 ^ - 1074\<close>; the result is infinite when the exponent exceeds 1023, also when the
  rounded significand reaches \<open>2 ^ 53\<close> at exponent 1023.
\<close>

definition round64 :: "rat \<Rightarrow> number" where
  "round64 x =
     (if x = 0 then Num 0
      else (let e = max (ilog2 \<bar>x\<bar>) (- 1022);
                q = pow2 (e - 52);
                n = roundHalfEven (x / q)
            in if 1024 \<le> e \<or> (e = 1023 \<and> \<bar>n\<bar> = 9007199254740992)
               then (if 0 < x then PosInfinity else NegInfinity)
               else Num (of_int n * q)))"

text \<open>\<open>Number(s)\<close> for a string \<open>s\<close> that spells out an integer.\<close>

definition Number :: "int \<Rightarrow> number" where
  "Number i = round64 (of_int i)"

text \<open>
  \<open>Math.pow(10, d)\<close> for a number \<open>d\<close> that holds a natural number, taken as correctly
  rounded.
\<close>

definition Math_pow10 :: "nat \<Rightarrow> number" where
  "Math_pow10 d = round64 (10 ^ d)"

text \<open>The operator \<open>/\<close> on numbers.\<close>

fun divide64 :: "number \<Rightarrow> number \<Rightarrow> number" where
  "divide64 NaN y = NaN"
| "divide64 x NaN = NaN"
| "divide64 (Num a) (Num b) =
     (if b = 0 then (if a = 0 then NaN else if 0 < a then PosInfinity else NegInfinity)
      else round64 (a / b))"
| "divide64 (Num a) y = Num 0"
| "divide64 PosInfinity (Num b) = (if 0 \<le> b then PosInfinity else NegInfinity)"
| "divide64 NegInfinity (Num b) = (if 0 \<le> b then NegInfinity else PosInfinity)"
| "divide64 x y = NaN"

subsection \<open>JavaScript maps\<close>

text \<open>
  \<open>Map.prototype.set\<close>: an existing key keeps its place and gets the new value, a new key
  goes to the end.
\<close>

fun Map_set :: "(string \<times> 'v) list \<Rightarrow> string \<Rightarrow> 'v \<Rightarrow> (string \<times> 'v) list" where
  "Map_set [] k v = [(k, v)]"
| "Map_set ((k', v') # m) k v =
     (if k' = k then (k, v) # m else (k', v') # Map_set m k v)"

definition Map_get :: "(string \<times> 'v) list \<Rightarrow> string \<Rightarrow> 'v option" where
  "Map_get m k = map_of m k"

definition Map_delete :: "(string \<times> 'v) list \<Rightarrow> string \<Rightarrow> (string \<times> 'v) list" where
  "Map_delete m k = filter (\<lambda>e. fst e \<noteq> k) m"

text \<open>\<open>new Map(entries)\<close> sets the entries one after the other.\<close>

definition new_Map :: "(string \<times> 'v) list \<Rightarrow> (string \<times> 'v) list" where
  "new_Map es = foldl (\<lambda>m e. Map_set m (fst e) (snd e)) [] es"

subsection \<open>The object store\<close>

definition alloc :: "Account list \<Rightarrow> Account \<Rightarrow> nat \<times> Account list" where
  "alloc h a = (length h, h @ [a])"

text \<open>Put the account objects of a listing into the store, keeping keys and order.\<close>

fun alloc_entries ::
  "Account list \<Rightarrow> (string \<times> Account) list \<Rightarrow> (string \<times> nat) list \<times> Account list" where
  "alloc_entries h [] = ([], h)"
| "alloc_entries h ((k, a) # es) =
     (let (r, h1) = alloc h a; (rs, h2) = alloc_entries h1 es in ((k, r) # rs, h2))"

text \<open>The registry as a reader sees it: every key with the object it refers to.\<close>

definition snapshot :: "state \<Rightarrow> (string \<times> Account) list" where
  "snapshot st = map (\<lambda>e. (fst e, heap st ! snd e)) (accounts st)"

subsection \<open>Persistence\<close>

text \<open>
  Modelled from the spec: the type of \<open>signer\<close> and \<open>sign\<close> is declared in \<open>./types\<close>, which
  is not among the sources; the serialized form of an account leaves the capability out
  (\<open>JSON.stringify\<close> drops functions and \<open>undefined\<close>), all other fields are kept.
\<close>

definition JSON_stringify_account :: "Account \<Rightarrow> Account" where
  "JSON_stringify_account a = a\<lparr>signer := None, sign := None\<rparr>"

definition JSON_stringify :: "(string \<times> Account) list \<Rightarrow> saved" where
  "JSON_stringify es = Entries (map (\<lambda>e. (fst e, JSON_stringify_account (snd e))) es)"

definition JSON_parse :: "saved \<Rightarrow> error + (string \<times> Account) list" where
  "JSON_parse s = (case s of Entries es \<Rightarrow> Inr es | Unparsable t \<Rightarrow> Inl (Error ''SyntaxError''))"

text \<open>A string is falsy when it is absent or empty.\<close>

definition falsy :: "saved option \<Rightarrow> bool" where
  "falsy s = (s = None \<or> s = Some (Unparsable []))"

text \<open>
  The effect on \<open>[accounts]\<close>: it runs after every render in which \<open>accounts\<close> is a new
  map, so the model runs it at the end of every \<open>setAccounts\<close>.
\<close>

definition persistEffect :: "state \<Rightarrow> state" where
  "persistEffect st =
     (if length (accounts st) > 0
      then st\<lparr>savedAccounts := Some (JSON_stringify (snapshot st))\<rparr>
      else st)"

text \<open>
  The state of the first render: \<open>useState(new Map())\<close> and the initializer of
  \<open>selectedAccountId\<close>, over the two slots found in \<open>localStorage\<close>.
\<close>

definition initialState :: "saved option \<Rightarrow> int option \<Rightarrow> state" where
  "initialState sa sid =
     \<lparr>heap = [], accounts = [],
      selectedAccountId = (case sid of Some i \<Rightarrow> i | None \<Rightarrow> 0),
      savedAccounts = sa, savedId = sid, console = [], alerts = []\<rparr>"

text \<open>
  \<open>setSelectedAccountId\<close> stores any number it is given; the effect on
  \<open>[selectedAccountId]\<close> writes the slot when the value has changed.
\<close>

definition setSelectedAccountId :: "int \<Rightarrow> state \<Rightarrow> state" where
  "setSelectedAccountId i st =
     (if i = selectedAccountId st then st
      else st\<lparr>selectedAccountId := i, savedId := Some i\<rparr>)"

text \<open>
  \<open>[...accounts.values()][selectedAccountId]\<close>: reading an array at an index that is not
  one of its positions gives \<open>undefined\<close>.
\<close>

definition selectedAccount :: "state \<Rightarrow> Account option" where
  "selectedAccount st =
     (let values = map (\<lambda>e. heap st ! snd e) (accounts st); i = selectedAccountId st
      in if 0 \<le> i \<and> nat i < length values then Some (values ! nat i) else None)"

text \<open>The effect that runs once after the first render and restores the accounts.\<close>

definition restoreEffect :: "state \<Rightarrow> outcome \<times> state" where
  "restoreEffect st =
     (let absent = (Resolved, setSelectedAccountId 0 (persistEffect (st\<lparr>accounts := []\<rparr>)))
      in case savedAccounts st of
           None \<Rightarrow> absent
         | Some s \<Rightarrow>
             if falsy (Some s) then absent
             else (case JSON_parse s of
                     Inr parsedAccounts \<Rightarrow>
                       (let (es, h) = alloc_entries (heap st) parsedAccounts
                        in (Resolved, persistEffect (st\<lparr>heap := h, accounts := new_Map es\<rparr>)))
                   | Inl e \<Rightarrow>
                       (Resolved,
                        st\<lparr>console := console st @
                             [''Failed to restore accounts from localStorage'']\<rparr>)))"

definition clearAccounts :: "state \<Rightarrow> state" where
  "clearAccounts st =
     setSelectedAccountId 0
       (persistEffect (st\<lparr>savedAccounts := None, savedId := None, accounts := []\<rparr>))"

subsection \<open>Synchronization\<close>

text \<open>
  \<open>Number(balanceResponse.available) / Math.pow(10, Number(balanceResponse.decimals))\<close>.
\<close>

definition computeBalance :: "balanceResponse \<Rightarrow> number" where
  "computeBalance r = divide64 (Number (available r)) (Math_pow10 (decimals r))"

text \<open>
  \<open>updateEthereumWallet\<close>. The balance fetch is outside any \<open>try\<close>, so a failing fetch
  rejects the callback before \<open>setAccounts\<close>. The map gets a new object, the spread
  \<open>{ ...account, balance: account.balance }\<close>.
\<close>

definition updateEthereumWallet :: "env \<Rightarrow> state \<Rightarrow> outcome \<times> state" where
  "updateEthereumWallet ev st =
     (case (sdk ev, useAccount_address ev) of
        (Some balance_get, Some addr) \<Rightarrow>
          (let ethereumAddress = substrateOrMirrorIfEthereumNormalized ev addr;
               account = \<lparr>address = addr, signerType = Ethereum, name = [], signer = None,
                          normalizedAddress = [], sign = None, walletType = None,
                          balance = None\<rparr>
           in case balance_get ethereumAddress of
                Inl e \<Rightarrow> (Rejected e, st)
              | Inr balanceResponse \<Rightarrow>
                  (let account = account\<lparr>balance := Some (computeBalance balanceResponse)\<rparr>;
                       (r, h) = alloc (heap st) account
                   in (Resolved,
                       persistEffect
                         (st\<lparr>heap := h, accounts := Map_set (accounts st) ethereumAddress r\<rparr>))))
      | _ \<Rightarrow> (Resolved, st))"

text \<open>
  One turn of the \<open>for\<close> loop of \<open>reinitializePolkadotAccountsWithBalance\<close>, on the entry
  \<open>[address, account]\<close> where \<open>account\<close> is the reference \<open>r\<close>. The loop state is the object
  store, the map \<open>updatedPolkadotAccounts\<close> and the console. The assignments to
  \<open>account.signer\<close> and \<open>account.balance\<close> write to the object itself.
\<close>

definition reinitialize_step ::
  "env \<Rightarrow> (string \<Rightarrow> error + balanceResponse) \<Rightarrow> string \<times> nat \<Rightarrow>
   Account list \<times> (string \<times> nat) list \<times> string list \<Rightarrow>
   Account list \<times> (string \<times> nat) list \<times> string list" where
  "reinitialize_step ev balance_get e s =
     (case s of (h, updatedPolkadotAccounts, c) \<Rightarrow>
      (let addr = fst e; r = snd e;
           failed = c @ [''Failed to reinitialize Polkadot account '' @ addr @ '':'']
       in if signerType (h ! r) = Polkadot then
            (case getAccounts ev (walletType (h ! r)) of
               Inl err \<Rightarrow> (h, updatedPolkadotAccounts, failed)
             | Inr walletAccounts \<Rightarrow>
                 (case Map_get walletAccounts (normalizedAddress (h ! r)) of
                    None \<Rightarrow> (h, updatedPolkadotAccounts, c)
                  | Some walletAccount \<Rightarrow>
                      (let h1 = h[r := (h ! r)\<lparr>signer := signer walletAccount\<rparr>]
                       in case balance_get addr of
                            Inl err \<Rightarrow> (h1, updatedPolkadotAccounts, failed)
                          | Inr balanceResponse \<Rightarrow>
                              (h1[r := (h1 ! r)\<lparr>balance :=
                                     Some (computeBalance balanceResponse)\<rparr>],
                               Map_set updatedPolkadotAccounts addr r, c))))
          else (h, updatedPolkadotAccounts, c)))"

text \<open>
  \<open>reinitializePolkadotAccountsWithBalance\<close>: the loop over the entries of \<open>accounts\<close>,
  then \<open>setAccounts\<close> puts every entry of \<open>updatedPolkadotAccounts\<close> into a copy of the
  map. The callback runs between two renders, so the \<open>accounts\<close> it closes over and the
  \<open>prevAccounts\<close> of its updater are the same map.
\<close>

definition reinitializePolkadotAccountsWithBalance :: "env \<Rightarrow> state \<Rightarrow> outcome \<times> state" where
  "reinitializePolkadotAccountsWithBalance ev st =
     (case sdk ev of
        None \<Rightarrow> (Resolved, st)
      | Some balance_get \<Rightarrow>
          if length (accounts st) = 0 then (Resolved, st)
          else (case foldl (\<lambda>s e. reinitialize_step ev balance_get e s)
                       (heap st, [], console st) (accounts st) of
                  (h, updatedPolkadotAccounts, c) \<Rightarrow>
                    (Resolved,
                     persistEffect
                       (st\<lparr>heap := h, console := c,
                           accounts := foldl (\<lambda>m e. Map_set m (fst e) (snd e))
                                         (accounts st) updatedPolkadotAccounts\<rparr>))))"

text \<open>
  The \<open>for\<close> loop of \<open>setPolkadotAccountsWithBalance\<close> over the entries of
  \<open>polkadotAccounts\<close>; the map is the second argument. There is no \<open>try\<close> around the
  fetch: the first failing fetch ends the loop and the callback.
\<close>

fun setPolkadot_loop ::
  "(string \<Rightarrow> error + balanceResponse) \<Rightarrow> (string \<times> Account) list \<Rightarrow>
   (string \<times> Account) list \<Rightarrow> error + (string \<times> Account) list" where
  "setPolkadot_loop balance_get [] polkadotAccounts = Inr polkadotAccounts"
| "setPolkadot_loop balance_get ((addr, account) # rest) polkadotAccounts =
     (case balance_get addr of
        Inl e \<Rightarrow> Inl e
      | Inr balanceResponse \<Rightarrow>
          setPolkadot_loop balance_get rest
            (Map_set polkadotAccounts addr
               (account\<lparr>signerType := Polkadot,
                        balance := Some (computeBalance balanceResponse)\<rparr>)))"

definition noAccountsMessage :: "string \<Rightarrow> string" where
  "noAccountsMessage walletName =
     ''No '' @ walletName @ '' accounts found or access denied for this domain''"

text \<open>
  \<open>setPolkadotAccountsWithBalance\<close>. The objects of \<open>polkadotAccounts\<close> enter the store
  when \<open>setAccounts\<close> builds \<open>new Map([...prevAccounts, ...polkadotAccounts])\<close>.
\<close>

definition setPolkadotAccountsWithBalance :: "env \<Rightarrow> string \<Rightarrow> state \<Rightarrow> outcome \<times> state" where
  "setPolkadotAccountsWithBalance ev walletName st =
     (case sdk ev of
        None \<Rightarrow> (Resolved, st)
      | Some balance_get \<Rightarrow>
          (case connectWallet ev walletName of
             Inl e \<Rightarrow> (Rejected e, st)
           | Inr polkadotAccounts \<Rightarrow>
               if length polkadotAccounts = 0
               then (Rejected (Error (noAccountsMessage walletName)),
                     st\<lparr>alerts := alerts st @ [noAccountsMessage walletName]\<rparr>)
               else (case setPolkadot_loop balance_get polkadotAccounts polkadotAccounts of
                       Inl e \<Rightarrow> (Rejected e, st)
                     | Inr withBalance \<Rightarrow>
                         (let (es, h) = alloc_entries (heap st) withBalance
                          in (Resolved,
                              persistEffect
                                (st\<lparr>heap := h, accounts := new_Map (accounts st @ es)\<rparr>))))))"

text \<open>
  The effect on \<open>[address]\<close>. It queues the updater that deletes every Ethereum entry and
  then, still before the next render, rewrites the saved entries; the updater and the
  persistence effect of the new map come after that.
\<close>

definition purgeEthereum :: "Account list \<Rightarrow> (string \<times> nat) list \<Rightarrow> (string \<times> nat) list" where
  "purgeEthereum h prevAccounts =
     foldl (\<lambda>newAccounts e.
              if signerType (h ! snd e) = Ethereum then Map_delete newAccounts (fst e)
              else newAccounts)
       prevAccounts prevAccounts"

definition filterSaved :: "state \<Rightarrow> state" where
  "filterSaved st =
     (case savedAccounts st of
        None \<Rightarrow> st
      | Some s \<Rightarrow>
          if falsy (Some s) then st
          else (case JSON_parse s of
                  Inr parsedAccounts \<Rightarrow>
                    st\<lparr>savedAccounts :=
                         Some (Entries (filter (\<lambda>e. signerType (snd e) \<noteq> Ethereum)
                                          parsedAccounts))\<rparr>
                | Inl e \<Rightarrow>
                    st\<lparr>console := console st @
                         [''Failed to filter Ethereum accounts from localStorage'']\<rparr>))"

definition disconnectEffect :: "env \<Rightarrow> state \<Rightarrow> state" where
  "disconnectEffect ev st =
     (case useAccount_address ev of
        Some addr \<Rightarrow> st
      | None \<Rightarrow>
          (let st1 = filterSaved st
           in persistEffect (st1\<lparr>accounts := purgeEthereum (heap st1) (accounts st1)\<rparr>)))"

subsection \<open>Sequences of operations\<close>

datatype event =
    UpdateEthereumWallet env
  | DisconnectEffect env
  | SetPolkadotAccountsWithBalance env string
  | ReinitializePolkadotAccountsWithBalance env
  | ClearAccounts

fun step :: "event \<Rightarrow> state \<Rightarrow> state" where
  "step (UpdateEthereumWallet ev) st = snd (updateEthereumWallet ev st)"
| "step (DisconnectEffect ev) st = disconnectEffect ev st"
| "step (SetPolkadotAccountsWithBalance ev w) st = snd (setPolkadotAccountsWithBalance ev w st)"
| "step (ReinitializePolkadotAccountsWithBalance ev) st =
     snd (reinitializePolkadotAccountsWithBalance ev st)"
| "step ClearAccounts st = clearAccounts st"

definition run :: "event list \<Rightarrow> state \<Rightarrow> state" where
  "run evs st = foldl (\<lambda>s e. step e s) st evs"

text \<open>
  Well-formed states: the keys of the map are distinct, every entry has an object of its
  own, and every reference is in the store.
\<close>

definition wf :: "state \<Rightarrow> bool" where
  "wf st \<longleftrightarrow>
     distinct (map fst (accounts st)) \<and> distinct (map snd (accounts st)) \<and>
     (\<forall>e \<in> set (accounts st). snd e < length (heap st))"

definition isEthereum :: "string \<times> Account \<Rightarrow> bool" where
  "isEthereum e \<longleftrightarrow> signerType (snd e) = Ethereum"

subsection \<open>Auxiliary definitions\<close>

text \<open>The object literal of \<open>updateEthereumWallet\<close>, with its balance.\<close>

definition ethereumAccount :: "string \<Rightarrow> number option \<Rightarrow> Account" where
  "ethereumAccount a b =
     \<lparr>address = a, signerType = Ethereum, name = [], signer = None, normalizedAddress = [],
      sign = None, walletType = None, balance = b\<rparr>"

text \<open>
  What a turn of the loop of \<open>setPolkadotAccountsWithBalance\<close> makes of an entry whose
  fetch succeeds.
\<close>

definition withBalance ::
  "(string \<Rightarrow> error + balanceResponse) \<Rightarrow> string \<times> Account \<Rightarrow> string \<times> Account" where
  "withBalance balance_get e =
     (fst e, (snd e)\<lparr>signerType := Polkadot,
                     balance := (case balance_get (fst e) of
                                   Inr r \<Rightarrow> Some (computeBalance r) | Inl err \<Rightarrow> None)\<rparr>)"

text \<open>
  What a turn of the loop of \<open>reinitializePolkadotAccountsWithBalance\<close> leaves in the
  object of the entry with key \<open>addr\<close>.
\<close>

definition refreshed ::
  "env \<Rightarrow> (string \<Rightarrow> error + balanceResponse) \<Rightarrow> string \<Rightarrow> Account \<Rightarrow> Account" where
  "refreshed ev balance_get addr a =
     (if signerType a = Polkadot then
        (case getAccounts ev (walletType a) of
           Inl err \<Rightarrow> a
         | Inr walletAccounts \<Rightarrow>
             (case Map_get walletAccounts (normalizedAddress a) of
                None \<Rightarrow> a
              | Some walletAccount \<Rightarrow>
                  (case balance_get addr of
                     Inl err \<Rightarrow> a\<lparr>signer := signer walletAccount\<rparr>
                   | Inr r \<Rightarrow> a\<lparr>signer := signer walletAccount,
                                 balance := Some (computeBalance r)\<rparr>)))
      else a)"

text \<open>The keys under which the registry holds an Ethereum record.\<close>

definition ethereumKeys :: "state \<Rightarrow> string set" where
  "ethereumKeys st = fst ` {e \<in> set (snapshot st). isEthereum e}"

text \<open>The key that an event writes an Ethereum record under, if it writes one.\<close>

fun syncedKey :: "event \<Rightarrow> string set" where
  "syncedKey (UpdateEthereumWallet ev) =
     (case useAccount_address ev of
        Some a \<Rightarrow> {substrateOrMirrorIfEthereumNormalized ev a} | None \<Rightarrow> {})"
| "syncedKey e = {}"

text \<open>\<open>connectWallet\<close> returns a \<open>Map\<close>: the keys of its entries are distinct.\<close>

fun walletIsMap :: "event \<Rightarrow> bool" where
  "walletIsMap (SetPolkadotAccountsWithBalance ev w) =
     (case connectWallet ev w of Inr pa \<Rightarrow> distinct (map fst pa) | Inl e \<Rightarrow> True)"
| "walletIsMap e = True"

text \<open>
  The events after which no Ethereum record is left: the effect on \<open>[address]\<close> when the
  address is absent, and \<open>clearAccounts\<close>.
\<close>

fun purges :: "event \<Rightarrow> bool" where
  "purges (DisconnectEffect ev) = (useAccount_address ev = None)"
| "purges ClearAccounts = True"
| "purges e = False"

text \<open>
  The keys of the Ethereum records of the start and of the addresses synchronized by a
  sequence of events, counted from its last purge.
\<close>

fun keysSincePurge :: "string set \<Rightarrow> event list \<Rightarrow> string set" where
  "keysSincePurge S [] = S"
| "keysSincePurge S (e # evs) =
     keysSincePurge (if purges e then {} else S \<union> syncedKey e) evs"

subsection \<open>Example inputs\<close>

definition polkadotAccount :: "string \<Rightarrow> string \<Rightarrow> nat option \<Rightarrow> rat option \<Rightarrow> Account" where
  "polkadotAccount a n s b =
     \<lparr>address = a, signerType = Polkadot, name = n, signer = s, normalizedAddress = a,
      sign = None, walletType = Some ''polkadot-js'', balance = map_option Num b\<rparr>"

definition oracle_ok :: "string \<Rightarrow> error + balanceResponse" where
  "oracle_ok a = Inr \<lparr>available = 1500000000000000000, decimals = 18\<rparr>"

definition oracle_bob_fails :: "string \<Rightarrow> error + balanceResponse" where
  "oracle_bob_fails a = (if a = ''bob'' then Inl (Error ''network'') else oracle_ok a)"

definition wallet_alice_bob :: "(string \<times> Account) list" where
  "wallet_alice_bob =
     [(''alice'', polkadotAccount ''alice'' ''Alice'' (Some 1) None),
      (''bob'', polkadotAccount ''bob'' ''Bob'' (Some 2) None)]"

definition wallet_bob_alice :: "(string \<times> Account) list" where
  "wallet_bob_alice =
     [(''bob'', polkadotAccount ''bob'' ''Bob'' (Some 2) None),
      (''alice'', polkadotAccount ''alice'' ''Alice'' (Some 1) None)]"

definition wallet_four :: "(string \<times> Account) list" where
  "wallet_four =
     [(''carol'', polkadotAccount ''carol'' ''Carol'' (Some 3) None),
      (''dave'', polkadotAccount ''dave'' ''Dave'' (Some 4) None),
      (''erin'', polkadotAccount ''erin'' ''Erin'' (Some 5) None),
      (''frank'', polkadotAccount ''frank'' ''Frank'' (Some 6) None)]"

definition env_example ::
  "(string \<Rightarrow> error + balanceResponse) \<Rightarrow> string option \<Rightarrow> (string \<times> Account) list \<Rightarrow> env" where
  "env_example oracle a wallet =
     \<lparr>sdk = Some oracle, useAccount_address = a,
      substrateOrMirrorIfEthereumNormalized = (\<lambda>x. ''mirror:'' @ x),
      getAccounts = (\<lambda>w. Inr wallet), connectWallet = (\<lambda>w. Inr wallet)\<rparr>"

text \<open>A registry with the two accounts of \<open>wallet_alice_bob\<close>, as after a reload.\<close>

definition state_alice_bob :: state where
  "state_alice_bob =
     \<lparr>heap = [polkadotAccount ''alice'' ''Alice'' None (Some 1),
              polkadotAccount ''bob'' ''Bob'' None (Some 2)],
      accounts = [(''alice'', 0), (''bob'', 1)], selectedAccountId = 0,
      savedAccounts = Some (Entries [(''alice'', polkadotAccount ''alice'' ''Alice'' None (Some 1)),
                                     (''bob'', polkadotAccount ''bob'' ''Bob'' None (Some 2))]),
      savedId = Some 0, console = [], alerts = []\<rparr>"

text \<open>The registry after the first sync of the Ethereum address \<open>0xA\<close>.\<close>

definition state_ethereum :: state where
  "state_ethereum =
     snd (updateEthereumWallet (env_example oracle_ok (Some ''0xA'') []) (initialState None None))"

text \<open>
  A session in which the address changes across a disconnect: sync \<open>0xA\<close>, connect the
  Polkadot wallet, disconnect, sync \<open>0xB\<close>, reinitialize with a failing fetch.
\<close>

definition example_session :: "event list" where
  "example_session =
     [UpdateEthereumWallet (env_example oracle_ok (Some ''0xA'') wallet_alice_bob),
      SetPolkadotAccountsWithBalance (env_example oracle_ok (Some ''0xA'') wallet_alice_bob)
        ''polkadot-js'',
      DisconnectEffect (env_example oracle_ok None wallet_alice_bob),
      UpdateEthereumWallet (env_example oracle_ok (Some ''0xB'') wallet_alice_bob),
      ReinitializePolkadotAccountsWithBalance
        (env_example oracle_bob_fails (Some ''0xB'') wallet_alice_bob)]"

definition oracle_two :: "string \<Rightarrow> error + balanceResponse" where
  "oracle_two a = Inr \<lparr>available = 2000000000000000000, decimals = 18\<rparr>"

text \<open>A registry with an Ethereum record and the two accounts of \<open>wallet_alice_bob\<close>.\<close>

definition state_connected :: state where
  "state_connected =
     run [UpdateEthereumWallet (env_example oracle_ok (Some ''0xA'') wallet_alice_bob),
          SetPolkadotAccountsWithBalance (env_example oracle_ok (Some ''0xA'') wallet_alice_bob)
            ''polkadot-js'']
       (initialState None None)"

section \<open>Properties\<close>

subsection \<open>JavaScript numbers: values\<close>

text \<open>
  The rounding on known values: one tenth, two ties above \<open>2 ^ 53\<close>, and the power of
  ten that is not a binary64 value.
\<close>

lemma round64_tenth: "round64 (1 / 10) = Num (3602879701896397 / 36028797018963968)"
  by code_simp

lemma round64_ties:
  "round64 9007199254740993 = Num 9007199254740992"
  "round64 9007199254740995 = Num 9007199254740996"
  by code_simp+

lemma round64_ten_to_23: "round64 (10 ^ 23) = Num 99999999999999991611392"
  by code_simp

lemma computeBalance_example:
  "computeBalance \<lparr>available = 1500000000000000000, decimals = 18\<rparr> = Num (3 / 2)"
  by code_simp

subsection \<open>JavaScript numbers: rounding\<close>

text \<open>
  The rounding of \<^const>\<open>round64\<close> is the one of IEEE 754 binary64: the exponent chosen by
  \<^const>\<open>ilog2\<close> brackets the argument between two consecutive powers of two, the result is an
  integer multiple of the spacing at that exponent with a significand of at most 53 bits, and
  it lies within half a spacing of the argument.
\<close>

lemma bitlen_bounds:
  "0 < n \<Longrightarrow> 0 < bitlen n \<and> 2 ^ nat (bitlen n - 1) \<le> n \<and> n < 2 ^ nat (bitlen n)"
proof (induction n rule: bitlen.induct)
  case (1 n)
  show ?case
  proof (cases "n = 1")
    case True
    then show ?thesis by (simp add: bitlen.simps [of 1] bitlen.simps [of 0])
  next
    case False
    then have pos: "0 < n div 2" using "1.prems" by (simp add: pos_imp_zdiv_pos_iff)
    have n0: "\<not> n \<le> 0" using "1.prems" by simp
    from "1.IH" [OF n0 pos] have b: "0 < bitlen (n div 2)"
      and lo: "2 ^ nat (bitlen (n div 2) - 1) \<le> n div 2"
      and hi: "n div 2 < 2 ^ nat (bitlen (n div 2))"
      by simp_all
    have eq: "bitlen n = 1 + bitlen (n div 2)" using n0 by (simp add: bitlen.simps [of n])
    have s: "nat (bitlen (n div 2)) = Suc (nat (bitlen (n div 2) - 1))" using b by simp
    have "2 * 2 ^ nat (bitlen (n div 2) - 1) \<le> 2 * (n div 2)" using lo by simp
    also have "\<dots> \<le> n" by simp
    finally have l: "2 ^ nat (bitlen (n div 2)) \<le> n" using s by simp
    have "n < 2 * (n div 2) + 2" by presburger
    also have "\<dots> \<le> 2 * 2 ^ nat (bitlen (n div 2))" using hi by simp
    finally have h: "n < 2 ^ Suc (nat (bitlen (n div 2)))" by simp
    have e1: "nat (bitlen n - 1) = nat (bitlen (n div 2))" using eq by simp
    have e2: "nat (bitlen n) = Suc (nat (bitlen (n div 2)))" using eq b by simp
    show ?thesis using l h b eq unfolding e1 e2 by simp
  qed
qed

lemma roundHalfEven_error: "\<bar>of_int (roundHalfEven y) - y\<bar> \<le> 1 / 2"
proof -
  have "of_int \<lfloor>y\<rfloor> \<le> y" "y < of_int \<lfloor>y\<rfloor> + 1" by linarith+
  then show ?thesis by (auto simp: roundHalfEven_def Let_def abs_le_iff)
qed


lemma pow2_pos [simp]: "0 < pow2 k"
  by (simp add: pow2_def)

lemma pow2_neq_0 [simp]: "pow2 k \<noteq> 0"
  by (simp add: pow2_def)

lemma pow2_nonneg [simp]: "0 \<le> pow2 k"
  by (rule less_imp_le) (rule pow2_pos)

lemma ilog2_bounds:
  assumes "0 < x"
  shows "pow2 (ilog2 x) \<le> x \<and> x < pow2 (ilog2 x + 1)"
proof (cases "1 \<le> x")
  case True
  let ?n = "\<lfloor>x\<rfloor>"
  have n: "0 < ?n" using True by simp
  from bitlen_bounds [OF n] have b: "0 < bitlen ?n"
    and lo: "2 ^ nat (bitlen ?n - 1) \<le> ?n" and hi: "?n < 2 ^ nat (bitlen ?n)"
    by simp_all
  have e: "ilog2 x = bitlen ?n - 1" using True by (simp add: ilog2_def)
  have "(of_int (2 ^ nat (bitlen ?n - 1)) :: rat) \<le> of_int ?n" using lo by (simp only: of_int_le_iff)
  also have "\<dots> \<le> x" by simp
  finally have l: "pow2 (ilog2 x) \<le> x" using b by (simp add: e pow2_def)
  have "?n + 1 \<le> 2 ^ nat (bitlen ?n)" using hi by simp
  then have "(of_int (?n + 1) :: rat) \<le> of_int (2 ^ nat (bitlen ?n))" by (simp only: of_int_le_iff)
  moreover have "x < of_int (?n + 1)" using floor_correct [of x] by simp
  ultimately have "x < of_int (2 ^ nat (bitlen ?n))" by linarith
  then have h: "x < pow2 (ilog2 x + 1)" using b by (simp add: e pow2_def)
  show ?thesis using l h by simp
next
  case False
  let ?y = "1 / x"
  let ?m = "\<lceil>?y\<rceil>"
  have y1: "1 < ?y" using False assms by simp
  then have m: "0 < ?m - 1" by (simp add: less_ceiling_iff)
  from bitlen_bounds [OF m] have b: "0 < bitlen (?m - 1)"
    and lo: "2 ^ nat (bitlen (?m - 1) - 1) \<le> ?m - 1" and hi: "?m - 1 < 2 ^ nat (bitlen (?m - 1))"
    by simp_all
  let ?b = "bitlen (?m - 1)"
  have e: "ilog2 x = - ?b" using False by (simp add: ilog2_def)
  have "?m \<le> 2 ^ nat ?b" using hi by simp
  then have "(of_int ?m :: rat) \<le> of_int (2 ^ nat ?b)" by (simp only: of_int_le_iff)
  moreover have "?y \<le> of_int ?m" by (rule le_of_int_ceiling)
  ultimately have "?y \<le> of_int (2 ^ nat ?b)" by (rule order_trans [rotated])
  then have "?y \<le> 2 ^ nat ?b" by simp
  then have "1 \<le> 2 ^ nat ?b * x" using assms by (simp add: divide_le_eq)
  then have "1 / 2 ^ nat ?b \<le> x" by (simp add: divide_le_eq mult.commute)
  then have l: "pow2 (ilog2 x) \<le> x" using b by (simp add: e pow2_def)
  have "(of_int (2 ^ nat (?b - 1)) :: rat) \<le> of_int (?m - 1)" using lo by (simp only: of_int_le_iff)
  moreover have "of_int (?m - 1) < ?y" by (simp add: ceiling_correct)
  ultimately have "2 ^ nat (?b - 1) < ?y" by simp
  then have "2 ^ nat (?b - 1) * x < 1" using assms by (simp add: less_divide_eq)
  then have "x < 1 / 2 ^ nat (?b - 1)" by (simp add: less_divide_eq mult.commute)
  moreover have "pow2 (- ?b + 1) = 1 / 2 ^ nat (?b - 1)"
  proof (cases "?b = 1")
    case True
    then show ?thesis by (simp add: pow2_def)
  next
    case False
    then have "- ?b + 1 < 0" using b by simp
    moreover have "nat (- (- ?b + 1)) = nat (?b - 1)" by simp
    ultimately show ?thesis by (simp add: pow2_def)
  qed
  ultimately have h: "x < pow2 (ilog2 x + 1)" by (simp add: e)
  show ?thesis using l h by simp
qed

lemma round64_error:
  assumes "round64 x = Num y"
  shows "\<exists>n. y = of_int n * pow2 (max (ilog2 \<bar>x\<bar>) (- 1022) - 52) \<and>
             \<bar>y - x\<bar> \<le> pow2 (max (ilog2 \<bar>x\<bar>) (- 1022) - 52) / 2"
proof (cases "x = 0")
  case True
  then have "y = 0" using assms by (simp add: round64_def)
  then show ?thesis using True by (intro exI [of _ 0]) simp
next
  case False
  let ?q = "pow2 (max (ilog2 \<bar>x\<bar>) (- 1022) - 52)"
  let ?n = "roundHalfEven (x / ?q)"
  have q: "0 < ?q" by simp
  have y: "y = of_int ?n * ?q"
    using assms False by (simp add: round64_def Let_def split: if_splits)
  have "\<bar>of_int ?n - x / ?q\<bar> \<le> 1 / 2" by (rule roundHalfEven_error)
  then have "\<bar>of_int ?n - x / ?q\<bar> * ?q \<le> 1 / 2 * ?q" using q by (simp only: mult_le_cancel_right_pos)
  moreover have "\<bar>of_int ?n - x / ?q\<bar> * ?q = \<bar>of_int ?n * ?q - x\<bar>"
  proof -
    have "\<bar>of_int ?n - x / ?q\<bar> * ?q = \<bar>(of_int ?n - x / ?q) * ?q\<bar>"
      using q by (simp add: abs_mult)
    also have "(of_int ?n - x / ?q) * ?q = of_int ?n * ?q - x"
      using q by (simp add: field_simps)
    finally show ?thesis .
  qed
  ultimately have "\<bar>y - x\<bar> \<le> ?q / 2" using y by simp
  with y show ?thesis by blast
qed


lemma pow2_powi: "pow2 k = 2 powi k"
  by (simp add: pow2_def power_int_def inverse_eq_divide power_one_over)

lemma pow2_add: "pow2 (a + b) = pow2 a * pow2 b"
  by (simp add: pow2_powi power_int_add)

lemma pow2_mono: "a \<le> b \<Longrightarrow> pow2 a \<le> pow2 b"
  by (simp add: pow2_powi power_int_increasing)

lemma pow2_53: "pow2 53 = 9007199254740992"
  by (simp add: pow2_def)

lemma round64_significand:
  assumes "x \<noteq> 0"
  shows "\<bar>roundHalfEven (x / pow2 (max (ilog2 \<bar>x\<bar>) (- 1022) - 52))\<bar> \<le> 9007199254740992"
proof -
  let ?e = "max (ilog2 \<bar>x\<bar>) (- 1022)"
  let ?q = "pow2 (?e - 52)"
  let ?r = "roundHalfEven (x / ?q)"
  have q: "0 < ?q" by simp
  have "\<bar>x\<bar> < pow2 (ilog2 \<bar>x\<bar> + 1)" using ilog2_bounds [of "\<bar>x\<bar>"] assms by simp
  also have "\<dots> \<le> pow2 (?e + 1)" by (rule pow2_mono) simp
  also have "\<dots> = ?q * 9007199254740992"
    using pow2_add [of "?e - 52" 53] by (simp add: pow2_53 add.commute)
  finally have "\<bar>x\<bar> / ?q < 9007199254740992" using q by (simp add: divide_less_eq mult.commute)
  then have a: "\<bar>x / ?q\<bar> < 9007199254740992" using q by (simp add: abs_divide)
  have b: "\<bar>of_int ?r - x / ?q\<bar> \<le> 1 / 2" by (rule roundHalfEven_error)
  have "\<bar>(of_int ?r :: rat)\<bar> < 9007199254740992 + 1 / 2" using a b by linarith
  then have "(of_int \<bar>?r\<bar> :: rat) < of_int 9007199254740992 + 1 / 2" by simp
  show ?thesis
  proof (rule ccontr)
    assume "\<not> ?thesis"
    then have "9007199254740992 + 1 \<le> \<bar>?r\<bar>" by simp
    then have "(of_int (9007199254740992 + 1) :: rat) \<le> of_int \<bar>?r\<bar>" by (simp only: of_int_le_iff)
    with \<open>(of_int \<bar>?r\<bar> :: rat) < of_int 9007199254740992 + 1 / 2\<close> show False by simp
  qed
qed

subsection \<open>Frame lemmas\<close>

lemma persistEffect_frame [simp]:
  "heap (persistEffect st) = heap st"
  "accounts (persistEffect st) = accounts st"
  "selectedAccountId (persistEffect st) = selectedAccountId st"
  "console (persistEffect st) = console st"
  "alerts (persistEffect st) = alerts st"
  "savedId (persistEffect st) = savedId st"
  by (simp_all add: persistEffect_def)

lemma snapshot_persistEffect [simp]: "snapshot (persistEffect st) = snapshot st"
  by (simp add: snapshot_def)

lemma setSelectedAccountId_frame [simp]:
  "heap (setSelectedAccountId i st) = heap st"
  "accounts (setSelectedAccountId i st) = accounts st"
  "selectedAccountId (setSelectedAccountId i st) = i"
  "console (setSelectedAccountId i st) = console st"
  "savedAccounts (setSelectedAccountId i st) = savedAccounts st"
  by (simp_all add: setSelectedAccountId_def)

lemma snapshot_setSelectedAccountId [simp]:
  "snapshot (setSelectedAccountId i st) = snapshot st"
  by (simp add: snapshot_def)

lemma length_snapshot [simp]: "length (snapshot st) = length (accounts st)"
  by (simp add: snapshot_def)

subsection \<open>Selection\<close>

lemma selectedAccount_snapshot:
  "selectedAccount st =
     (if 0 \<le> selectedAccountId st \<and> selectedAccountId st < int (length (snapshot st))
      then Some (snd (snapshot st ! nat (selectedAccountId st))) else None)"
  by (auto simp: selectedAccount_def snapshot_def Let_def)

lemma selectedAccountId_updateEthereumWallet [simp]:
  "selectedAccountId (snd (updateEthereumWallet ev st)) = selectedAccountId st"
  by (simp add: updateEthereumWallet_def alloc_def Let_def
      split: option.splits sum.splits prod.splits)

lemma selectedAccountId_reinitialize [simp]:
  "selectedAccountId (snd (reinitializePolkadotAccountsWithBalance ev st)) =
     selectedAccountId st"
  by (simp add: reinitializePolkadotAccountsWithBalance_def split: option.splits prod.splits)

lemma selectedAccountId_setPolkadot [simp]:
  "selectedAccountId (snd (setPolkadotAccountsWithBalance ev w st)) = selectedAccountId st"
  by (simp add: setPolkadotAccountsWithBalance_def Let_def
      split: option.splits sum.splits prod.splits)

lemma selectedAccountId_filterSaved [simp]:
  "selectedAccountId (filterSaved st) = selectedAccountId st"
  by (simp add: filterSaved_def split: option.splits sum.splits)

lemma selectedAccountId_disconnectEffect [simp]:
  "selectedAccountId (disconnectEffect ev st) = selectedAccountId st"
  by (simp add: disconnectEffect_def Let_def split: option.splits)

lemma selectedAccountId_step:
  "e \<noteq> ClearAccounts \<Longrightarrow> selectedAccountId (step e st) = selectedAccountId st"
  by (cases e) simp_all

lemma selectedAccountId_run:
  "ClearAccounts \<notin> set evs \<Longrightarrow> selectedAccountId (run evs st) = selectedAccountId st"
  unfolding run_def
  by (induction evs arbitrary: st) (auto simp: selectedAccountId_step)

text \<open>
  Claim C6. \<open>setSelectedAccountId\<close> stores any integer without a bounds check, and
  \<open>selectedAccount\<close> is the record at that position of the insertion order, or no selection
  when the index is not a position: index 5 in a registry of 2 accounts selects nothing,
  and once operations other than clearing have grown the registry to 6 accounts the same
  stored index selects the sixth record.
\<close>

theorem selectedAccount_by_position:
  "selectedAccountId (setSelectedAccountId i st) = i \<and>
   snapshot (setSelectedAccountId i st) = snapshot st \<and>
   selectedAccount (setSelectedAccountId i st) =
     (if 0 \<le> i \<and> i < int (length (snapshot st)) then Some (snd (snapshot st ! nat i))
      else None) \<and>
   (length (snapshot st) = 2 \<longrightarrow> selectedAccount (setSelectedAccountId 5 st) = None) \<and>
   (ClearAccounts \<notin> set evs \<and>
    length (snapshot (run evs (setSelectedAccountId 5 st))) = 6 \<longrightarrow>
      selectedAccount (run evs (setSelectedAccountId 5 st)) =
        Some (snd (snapshot (run evs (setSelectedAccountId 5 st)) ! 5)))"
proof -
  have sel: "selectedAccount (setSelectedAccountId j st) =
     (if 0 \<le> j \<and> j < int (length (snapshot st)) then Some (snd (snapshot st ! nat j))
      else None)" for j
    by (simp add: selectedAccount_snapshot)
  have small: "length (snapshot st) = 2 \<longrightarrow> selectedAccount (setSelectedAccountId 5 st) = None"
    by (simp add: sel)
  have grown: "ClearAccounts \<notin> set evs \<and>
      length (snapshot (run evs (setSelectedAccountId 5 st))) = 6 \<longrightarrow>
      selectedAccount (run evs (setSelectedAccountId 5 st)) =
        Some (snd (snapshot (run evs (setSelectedAccountId 5 st)) ! 5))"
  proof
    assume a: "ClearAccounts \<notin> set evs \<and>
      length (snapshot (run evs (setSelectedAccountId 5 st))) = 6"
    then have "selectedAccountId (run evs (setSelectedAccountId 5 st)) = 5"
      by (simp add: selectedAccountId_run)
    with a show "selectedAccount (run evs (setSelectedAccountId 5 st)) =
        Some (snd (snapshot (run evs (setSelectedAccountId 5 st)) ! 5))"
      by (simp add: selectedAccount_snapshot)
  qed
  show ?thesis using sel small grown by simp
qed

lemma example_grown_registry:
  "snapshot (run [SetPolkadotAccountsWithBalance (env_example oracle_ok None wallet_four)
                    ''polkadot-js'']
               (setSelectedAccountId 5 state_alice_bob)) =
     [(''alice'', polkadotAccount ''alice'' ''Alice'' None (Some 1)),
      (''bob'', polkadotAccount ''bob'' ''Bob'' None (Some 2)),
      (''carol'', polkadotAccount ''carol'' ''Carol'' (Some 3) (Some (3 / 2))),
      (''dave'', polkadotAccount ''dave'' ''Dave'' (Some 4) (Some (3 / 2))),
      (''erin'', polkadotAccount ''erin'' ''Erin'' (Some 5) (Some (3 / 2))),
      (''frank'', polkadotAccount ''frank'' ''Frank'' (Some 6) (Some (3 / 2)))]"
  by code_simp

theorem selectedAccount_by_position_witness:
  "length (snapshot state_alice_bob) = 2 \<and>
   selectedAccount (setSelectedAccountId 5 state_alice_bob) = None \<and>
   selectedAccount
     (run [SetPolkadotAccountsWithBalance (env_example oracle_ok None wallet_four)
             ''polkadot-js'']
        (setSelectedAccountId 5 state_alice_bob)) =
     Some (polkadotAccount ''frank'' ''Frank'' (Some 6) (Some (3 / 2)))"
proof -
  have two: "length (snapshot state_alice_bob) = 2"
    by (simp add: state_alice_bob_def)
  show ?thesis
    using two example_grown_registry
      selectedAccount_by_position [of 5 state_alice_bob
        "[SetPolkadotAccountsWithBalance (env_example oracle_ok None wallet_four)
            ''polkadot-js'']"]
    by simp
qed

subsection \<open>Connecting a Polkadot wallet\<close>

lemma setPolkadot_loop_fails:
  "(k, a) \<in> set es \<Longrightarrow> balance_get k = Inl e \<Longrightarrow>
   \<exists>e'. setPolkadot_loop balance_get es m = Inl e'"
  by (induction es arbitrary: m) (auto split: sum.splits)

text \<open>
  Claim C10. When the wallet enumeration of \<open>setPolkadotAccountsWithBalance\<close> returns
  accounts and the balance fetch of one of them rejects, the whole operation rejects and
  the state is the one before the call: no account of that enumeration is merged.
\<close>

theorem setPolkadot_all_or_nothing:
  assumes "sdk ev = Some balance_get"
    and "connectWallet ev w = Inr polkadotAccounts"
    and "(k, a) \<in> set polkadotAccounts"
    and "balance_get k = Inl e"
  shows "\<exists>e'. setPolkadotAccountsWithBalance ev w st = (Rejected e', st)"
proof -
  from assms(3,4) obtain e' where
    "setPolkadot_loop balance_get polkadotAccounts polkadotAccounts = Inl e'"
    using setPolkadot_loop_fails by blast
  moreover from assms(3) have "polkadotAccounts \<noteq> []" by auto
  ultimately show ?thesis using assms(1,2)
    by (simp add: setPolkadotAccountsWithBalance_def)
qed

theorem setPolkadot_all_or_nothing_witness:
  "sdk (env_example oracle_bob_fails None wallet_alice_bob) = Some oracle_bob_fails \<and>
   connectWallet (env_example oracle_bob_fails None wallet_alice_bob) ''polkadot-js'' =
     Inr wallet_alice_bob \<and>
   (''bob'', polkadotAccount ''bob'' ''Bob'' (Some 2) None) \<in> set wallet_alice_bob \<and>
   oracle_bob_fails ''bob'' = Inl (Error ''network'') \<and>
   (\<exists>e'. setPolkadotAccountsWithBalance (env_example oracle_bob_fails None wallet_alice_bob)
            ''polkadot-js'' (initialState None None) =
          (Rejected e', initialState None None))"
proof -
  have h1: "sdk (env_example oracle_bob_fails None wallet_alice_bob) = Some oracle_bob_fails"
    by (simp add: env_example_def)
  have h2: "connectWallet (env_example oracle_bob_fails None wallet_alice_bob) ''polkadot-js'' =
     Inr wallet_alice_bob"
    by (simp add: env_example_def)
  have h3: "(''bob'', polkadotAccount ''bob'' ''Bob'' (Some 2) None) \<in> set wallet_alice_bob"
    by (simp add: wallet_alice_bob_def)
  have h4: "oracle_bob_fails ''bob'' = Inl (Error ''network'')"
    by (simp add: oracle_bob_fails_def)
  show ?thesis
    using h1 h2 h3 h4 setPolkadot_all_or_nothing [OF h1 h2 h3 h4, of "initialState None None"]
    by simp
qed

subsection \<open>Restoring the saved accounts\<close>

text \<open>
  Claim C8, as the code has it. A malformed text in the \<open>accounts\<close> slot that is not
  empty leaves the accounts map of the first render empty, logs one line and raises
  nothing. The empty text is falsy and takes the branch of an absent slot: the map is
  empty, the selection is reset to 0, nothing is raised and nothing is logged.
\<close>

theorem restore_malformed:
  "(t \<noteq> [] \<longrightarrow>
      restoreEffect (initialState (Some (Unparsable t)) sid) =
        (Resolved, (initialState (Some (Unparsable t)) sid)
           \<lparr>console := [''Failed to restore accounts from localStorage'']\<rparr>) \<and>
      accounts (initialState (Some (Unparsable t)) sid) = []) \<and>
   fst (restoreEffect (initialState (Some (Unparsable [])) sid)) = Resolved \<and>
   accounts (snd (restoreEffect (initialState (Some (Unparsable [])) sid))) = [] \<and>
   selectedAccountId (snd (restoreEffect (initialState (Some (Unparsable [])) sid))) = 0 \<and>
   console (snd (restoreEffect (initialState (Some (Unparsable [])) sid))) = []"
  by (simp add: restoreEffect_def initialState_def falsy_def JSON_parse_def Let_def
      persistEffect_def setSelectedAccountId_def)

theorem restore_malformed_witness:
  "''{not json'' \<noteq> [] \<and>
   fst (restoreEffect (initialState (Some (Unparsable ''{not json'')) (Some 3))) = Resolved \<and>
   accounts (snd (restoreEffect (initialState (Some (Unparsable ''{not json'')) (Some 3)))) = [] \<and>
   console (snd (restoreEffect (initialState (Some (Unparsable ''{not json'')) (Some 3)))) =
     [''Failed to restore accounts from localStorage'']"
  using restore_malformed [of "''{not json''" "Some 3"]
  by (simp add: initialState_def)

text \<open>
  Claim C8 as worded fails on the empty text: \<open>JSON.parse\<close> throws on it, yet the
  restore effect logs nothing.
\<close>

theorem restore_empty_text_not_logged:
  "JSON_parse (Unparsable []) = Inl (Error ''SyntaxError'') \<and>
   console (snd (restoreEffect (initialState (Some (Unparsable [])) None))) = []"
  by (simp add: restoreEffect_def initialState_def falsy_def JSON_parse_def Let_def
      persistEffect_def setSelectedAccountId_def)

subsection \<open>JavaScript maps: lemmas\<close>

lemma Map_set_new: "k \<notin> fst ` set m \<Longrightarrow> Map_set m k v = m @ [(k, v)]"
  by (induction m) auto

lemma Map_set_old_keys: "k \<in> fst ` set m \<Longrightarrow> map fst (Map_set m k v) = map fst m"
  by (induction m) force+

lemma Map_set_keys:
  "map fst (Map_set m k v) = (if k \<in> fst ` set m then map fst m else map fst m @ [k])"
  by (simp add: Map_set_new Map_set_old_keys)

lemma distinct_keys_Map_set:
  "distinct (map fst m) \<Longrightarrow> distinct (map fst (Map_set m k v))"
  by (simp add: Map_set_keys)

lemma set_Map_set: "set (Map_set m k v) \<subseteq> insert (k, v) (set m)"
  by (induction m) (auto split: if_splits)

lemma vals_Map_set: "snd ` set (Map_set m k v) \<subseteq> insert v (snd ` set m)"
proof
  fix x assume "x \<in> snd ` set (Map_set m k v)"
  then obtain e where e: "e \<in> set (Map_set m k v)" "x = snd e" by blast
  with set_Map_set [of m k v] have "e = (k, v) \<or> e \<in> set m" by blast
  then show "x \<in> insert v (snd ` set m)" using e(2) by auto
qed

lemma map_of_Map_set: "map_of (Map_set m k v) = (map_of m)(k \<mapsto> v)"
  by (induction m) (auto simp: fun_eq_iff)

lemma Map_set_same: "map_of m k = Some v \<Longrightarrow> Map_set m k v = m"
  by (induction m) (auto split: if_splits)

lemma Map_set_map:
  "map (\<lambda>e. (fst e, f (snd e))) (Map_set m k v) = Map_set (map (\<lambda>e. (fst e, f (snd e))) m) k (f v)"
  by (induction m) auto

lemma foldl_Map_set_map:
  "map (\<lambda>e. (fst e, f (snd e))) (foldl (\<lambda>m e. Map_set m (fst e) (snd e)) m es) =
   foldl (\<lambda>m e. Map_set m (fst e) (snd e)) (map (\<lambda>e. (fst e, f (snd e))) m) (map (\<lambda>e. (fst e, f (snd e))) es)"
  by (induction es arbitrary: m) (simp_all add: Map_set_map)

lemma foldl_Map_set_id:
  "distinct (map fst (pre @ m)) \<Longrightarrow>
   foldl (\<lambda>m e. Map_set m (fst e) (snd e)) pre m = pre @ m"
proof (induction m arbitrary: pre)
  case Nil
  then show ?case by simp
next
  case (Cons e m)
  have "Map_set pre (fst e) (snd e) = pre @ [e]"
    using Cons.prems by (simp add: Map_set_new)
  then show ?case using Cons.IH [of "pre @ [e]"] Cons.prems by simp
qed

lemma new_Map_id: "distinct (map fst m) \<Longrightarrow> new_Map m = m"
  using foldl_Map_set_id [of "[]" m] by (simp add: new_Map_def)

lemma new_Map_append:
  "new_Map (m @ es) = foldl (\<lambda>m e. Map_set m (fst e) (snd e)) (new_Map m) es"
  by (simp add: new_Map_def)

lemma distinct_keys_foldl_Map_set:
  "distinct (map fst m) \<Longrightarrow> distinct (map fst (foldl (\<lambda>m e. Map_set m (fst e) (snd e)) m es))"
  by (induction es arbitrary: m) (simp_all add: distinct_keys_Map_set)

lemma distinct_keys_new_Map: "distinct (map fst (new_Map es))"
  by (simp add: new_Map_def distinct_keys_foldl_Map_set)

lemma set_foldl_Map_set:
  "set (foldl (\<lambda>m e. Map_set m (fst e) (snd e)) m es) \<subseteq> set m \<union> set es"
proof (induction es arbitrary: m)
  case Nil
  then show ?case by simp
next
  case (Cons e es)
  have "set (Map_set m (fst e) (snd e)) \<subseteq> insert e (set m)"
    using set_Map_set [of m "fst e" "snd e"] by simp
  with Cons.IH [of "Map_set m (fst e) (snd e)"] show ?case by auto
qed

lemma map_of_foldl_Map_set:
  "map_of (foldl (\<lambda>m e. Map_set m (fst e) (snd e)) m es) k =
     (case map_of (rev es) k of Some v \<Rightarrow> Some v | None \<Rightarrow> map_of m k)"
  by (induction es arbitrary: m) (simp_all add: map_of_Map_set map_add_def split: option.splits)

lemma distinct_vals_Map_set:
  "distinct (map snd m) \<Longrightarrow> v \<notin> snd ` set m \<Longrightarrow> distinct (map snd (Map_set m k v))"
proof (induction m)
  case Nil
  then show ?case by simp
next
  case (Cons e m)
  obtain k' v' where e: "e = (k', v')" by (cases e)
  from Cons.prems e have d: "distinct (map snd m)" and v': "v' \<notin> snd ` set m"
    and v: "v \<notin> snd ` set m" and ne: "v \<noteq> v'"
    by simp_all
  show ?case
  proof (cases "k' = k")
    case True
    then show ?thesis using e d v by simp
  next
    case False
    have "v' \<notin> snd ` set (Map_set m k v)"
      using vals_Map_set [of m k v] v' ne by blast
    then show ?thesis using False e Cons.IH [OF d v] by simp
  qed
qed


lemma distinct_vals_foldl_Map_set:
  "distinct (map snd m) \<Longrightarrow> distinct (map snd es) \<Longrightarrow>
   (\<And>x. x \<in> set es \<Longrightarrow> snd x \<notin> snd ` set m) \<Longrightarrow>
   distinct (map snd (foldl (\<lambda>m e. Map_set m (fst e) (snd e)) m es))"
proof (induction es arbitrary: m)
  case Nil
  then show ?case by simp
next
  case (Cons e es)
  have e1: "snd e \<notin> snd ` set m" using Cons.prems(3) [of e] by simp
  have e2: "snd e \<notin> snd ` set es" and d2: "distinct (map snd es)"
    using Cons.prems(2) by simp_all
  have d: "distinct (map snd (Map_set m (fst e) (snd e)))"
    using Cons.prems(1) e1 by (rule distinct_vals_Map_set)
  have fresh: "snd x \<notin> snd ` set (Map_set m (fst e) (snd e))" if x: "x \<in> set es" for x
  proof -
    have "snd x \<notin> snd ` set m" using Cons.prems(3) [of x] x by simp
    moreover have "snd x \<noteq> snd e" using e2 x by (metis imageI)
    ultimately show ?thesis using vals_Map_set [of m "fst e" "snd e"] by blast
  qed
  from Cons.IH [OF d d2 fresh] show ?case by simp
qed

subsection \<open>The object store: lemmas\<close>

lemma alloc_entries_props:
  "alloc_entries h es = (rs, h') \<Longrightarrow>
   map fst rs = map fst es \<and> map snd rs = [length h ..< length h + length es] \<and>
   h' = h @ map snd es"
proof (induction es arbitrary: h rs h')
  case Nil
  then show ?case by simp
next
  case (Cons e es)
  obtain k a where e: "e = (k, a)" by (cases e)
  obtain rs1 h1 where r: "alloc_entries (h @ [a]) es = (rs1, h1)" by (cases "alloc_entries (h @ [a]) es")
  from Cons.prems e r have rs: "rs = (k, length h) # rs1" and h': "h' = h1"
    by (simp_all add: alloc_def)
  have "[length h ..< length h + length (e # es)] =
        length h # [length (h @ [a]) ..< length (h @ [a]) + length es]"
    using upt_conv_Cons [of "length h" "length h + Suc (length es)"] by simp
  with Cons.IH [OF r] show ?case using rs h' e by simp
qed

lemma alloc_entries_deref:
  assumes "alloc_entries h es = (rs, h')"
  shows "map (\<lambda>e. (fst e, h' ! snd e)) rs = es"
proof -
  from alloc_entries_props [OF assms] have
    k: "map fst rs = map fst es" and r: "map snd rs = [length h ..< length h + length es]"
    and h': "h' = h @ map snd es" by simp_all
  have len: "length rs = length es" using k by (metis length_map)
  show ?thesis
  proof (rule nth_equalityI)
    show "length (map (\<lambda>e. (fst e, h' ! snd e)) rs) = length es" using len by simp
  next
    fix i assume "i < length (map (\<lambda>e. (fst e, h' ! snd e)) rs)"
    then have i: "i < length es" using len by simp
    have "map fst rs ! i = map fst es ! i" using k by simp
    then have "fst (rs ! i) = fst (es ! i)" using i len by simp
    moreover have "map snd rs ! i = [length h ..< length h + length es] ! i" using r by simp
    then have "snd (rs ! i) = length h + i" using i len by simp
    ultimately show "map (\<lambda>e. (fst e, h' ! snd e)) rs ! i = es ! i"
      using i len h' by (simp add: nth_append prod_eq_iff)
  qed
qed

subsection \<open>Well-formed states\<close>

text \<open>
  The state of the first render is well-formed and every effect and callback keeps a
  well-formed state well-formed, so the states the component can reach are well-formed.
\<close>

lemma wfD:
  "wf st \<Longrightarrow> distinct (map fst (accounts st))"
  "wf st \<Longrightarrow> distinct (map snd (accounts st))"
  "wf st \<Longrightarrow> e \<in> set (accounts st) \<Longrightarrow> snd e < length (heap st)"
  by (simp_all add: wf_def)

lemma wf_persistEffect [simp]: "wf (persistEffect st) = wf st"
  by (simp add: wf_def)

lemma wf_setSelectedAccountId [simp]: "wf (setSelectedAccountId i st) = wf st"
  by (simp add: wf_def)

lemma deref_extend:
  "(\<And>e. e \<in> set m \<Longrightarrow> snd e < length h) \<Longrightarrow>
   map (\<lambda>e. (fst e, (h @ h2) ! snd e)) m = map (\<lambda>e. (fst e, h ! snd e)) m"
  by (simp add: nth_append)

lemma updateEthereumWallet_success:
  assumes "sdk ev = Some balance_get" and "useAccount_address ev = Some a"
    and "balance_get (substrateOrMirrorIfEthereumNormalized ev a) = Inr resp"
  shows "updateEthereumWallet ev st =
     (Resolved,
      persistEffect
        (st\<lparr>heap := heap st @ [ethereumAccount a (Some (computeBalance resp))],
            accounts := Map_set (accounts st) (substrateOrMirrorIfEthereumNormalized ev a)
                          (length (heap st))\<rparr>))"
  using assms by (simp add: updateEthereumWallet_def ethereumAccount_def alloc_def Let_def)

lemma updateEthereumWallet_other:
  "sdk ev = None \<or> useAccount_address ev = None \<or>
   (\<exists>bg a e. sdk ev = Some bg \<and> useAccount_address ev = Some a \<and>
      bg (substrateOrMirrorIfEthereumNormalized ev a) = Inl e) \<Longrightarrow>
   snd (updateEthereumWallet ev st) = st"
  by (auto simp: updateEthereumWallet_def Let_def split: option.splits sum.splits)

lemma updateEthereumWallet_cases:
  obtains (unchanged) "snd (updateEthereumWallet ev st) = st"
  | (written) a resp where "useAccount_address ev = Some a"
      "snd (updateEthereumWallet ev st) =
        persistEffect
        (st\<lparr>heap := heap st @ [ethereumAccount a (Some (computeBalance resp))],
            accounts := Map_set (accounts st) (substrateOrMirrorIfEthereumNormalized ev a)
                          (length (heap st))\<rparr>)"
proof (cases "sdk ev")
  case None
  then show ?thesis using unchanged updateEthereumWallet_other by blast
next
  case (Some bg)
  show ?thesis
  proof (cases "useAccount_address ev")
    case None
    then show ?thesis using unchanged updateEthereumWallet_other by blast
  next
    case a: (Some a)
    show ?thesis
    proof (cases "bg (substrateOrMirrorIfEthereumNormalized ev a)")
      case (Inl e)
      then show ?thesis using unchanged updateEthereumWallet_other [of ev st] Some a by blast
    next
      case (Inr resp)
      then show ?thesis using written [of a resp] updateEthereumWallet_success [OF Some a Inr] a
        by simp
    qed
  qed
qed

lemma wf_write:
  assumes "wf st"
  shows "wf (st\<lparr>heap := heap st @ [x], accounts := Map_set (accounts st) k (length (heap st))\<rparr>)"
proof -
  have fresh: "length (heap st) \<notin> snd ` set (accounts st)"
    using wfD(3) [OF assms] by force
  have "\<And>e. e \<in> set (Map_set (accounts st) k (length (heap st))) \<Longrightarrow> snd e < Suc (length (heap st))"
    using set_Map_set [of "accounts st" k "length (heap st)"] wfD(3) [OF assms]
    by (metis insert_iff less_Suc_eq snd_conv subsetD)
  then show ?thesis
    using wfD(1,2) [OF assms] fresh
    by (simp add: wf_def distinct_keys_Map_set distinct_vals_Map_set)
qed

lemma snapshot_write:
  assumes "wf st"
  shows "snapshot (st\<lparr>heap := heap st @ [x], accounts := Map_set (accounts st) k (length (heap st))\<rparr>) =
         Map_set (snapshot st) k x"
proof -
  have "map (\<lambda>e. (fst e, (heap st @ [x]) ! snd e)) (Map_set (accounts st) k (length (heap st))) =
        Map_set (map (\<lambda>e. (fst e, (heap st @ [x]) ! snd e)) (accounts st)) k ((heap st @ [x]) ! length (heap st))"
    by (rule Map_set_map)
  also have "map (\<lambda>e. (fst e, (heap st @ [x]) ! snd e)) (accounts st) = snapshot st"
    unfolding snapshot_def using wfD(3) [OF assms] by (rule deref_extend)
  finally show ?thesis by (simp add: snapshot_def)
qed

lemma wf_updateEthereumWallet: "wf st \<Longrightarrow> wf (snd (updateEthereumWallet ev st))"
  by (cases ev st rule: updateEthereumWallet_cases) (simp_all add: wf_write)

lemma Map_set_middle:
  "k \<notin> fst ` set pre \<Longrightarrow> Map_set (pre @ (k, a) # rest) k v = pre @ (k, v) # rest"
  by (induction pre) auto

lemma setPolkadot_loop_ok:
  "distinct (map fst (pre @ es)) \<Longrightarrow> (\<And>e. e \<in> set es \<Longrightarrow> \<exists>r. balance_get (fst e) = Inr r) \<Longrightarrow>
   setPolkadot_loop balance_get es (pre @ es) = Inr (pre @ map (withBalance balance_get) es)"
proof (induction es arbitrary: pre)
  case Nil
  then show ?case by simp
next
  case (Cons e es)
  obtain k a where e: "e = (k, a)" by (cases e)
  obtain r where r: "balance_get k = Inr r" using Cons.prems(2) [of e] e by auto
  have k: "k \<notin> fst ` set pre" using Cons.prems(1) e by auto
  let ?a = "a\<lparr>signerType := Polkadot, balance := Some (computeBalance r)\<rparr>"
  have m: "Map_set (pre @ e # es) k ?a = (pre @ [(k, ?a)]) @ es"
    using Map_set_middle [OF k, of a es ?a] e by simp
  have d: "distinct (map fst ((pre @ [(k, ?a)]) @ es))" using Cons.prems(1) e by simp
  have "setPolkadot_loop balance_get es ((pre @ [(k, ?a)]) @ es) =
        Inr ((pre @ [(k, ?a)]) @ map (withBalance balance_get) es)"
    using Cons.IH [OF d] Cons.prems(2) by simp
  then show ?case using e r m by (simp add: withBalance_def)
qed

lemma setPolkadot_loop_Inr:
  "setPolkadot_loop balance_get es m = Inr m' \<Longrightarrow> e \<in> set es \<Longrightarrow> \<exists>r. balance_get (fst e) = Inr r"
proof (induction es arbitrary: m)
  case Nil
  then show ?case by simp
next
  case (Cons x es)
  obtain k a where x: "x = (k, a)" by (cases x)
  from Cons.prems(1) x obtain r where r: "balance_get k = Inr r"
    by (cases "balance_get k") auto
  show ?case
  proof (cases "e = x")
    case True
    then show ?thesis using r x by simp
  next
    case False
    then have "e \<in> set es" using Cons.prems(2) by simp
    moreover from Cons.prems(1) x r have "\<exists>m1. setPolkadot_loop balance_get es m1 = Inr m'"
      by auto
    ultimately show ?thesis using Cons.IH by blast
  qed
qed

lemma wf_merge:
  assumes "wf st" and "alloc_entries (heap st) wb = (es, h)"
  shows "wf (st\<lparr>heap := h, accounts := new_Map (accounts st @ es)\<rparr>)"
    and "snapshot (st\<lparr>heap := h, accounts := new_Map (accounts st @ es)\<rparr>) =
         foldl (\<lambda>m e. Map_set m (fst e) (snd e)) (snapshot st) wb"
proof -
  let ?f = "\<lambda>m e. Map_set m (fst e) (snd e)"
  from alloc_entries_props [OF assms(2)] have
    keys: "map fst es = map fst wb" and refs: "map snd es = [length (heap st) ..< length (heap st) + length wb]"
    and h: "h = heap st @ map snd wb" by simp_all
  have nm: "new_Map (accounts st @ es) = foldl ?f (accounts st) es"
    using wfD(1) [OF assms(1)] by (simp add: new_Map_append new_Map_id)
  have dk: "distinct (map fst (foldl ?f (accounts st) es))"
    using wfD(1) [OF assms(1)] by (rule distinct_keys_foldl_Map_set)
  have des: "distinct (map snd es)" using refs by simp
  have range: "length (heap st) \<le> snd x \<and> snd x < length h" if "x \<in> set es" for x
  proof -
    have "snd x \<in> set (map snd es)" using that by simp
    then show ?thesis using refs h by simp
  qed
  have fresh: "snd x \<notin> snd ` set (accounts st)" if "x \<in> set es" for x
    using range [OF that] wfD(3) [OF assms(1)] by force
  have dv: "distinct (map snd (foldl ?f (accounts st) es))"
    using wfD(2) [OF assms(1)] des fresh by (rule distinct_vals_foldl_Map_set)
  have valid: "snd e < length h" if "e \<in> set (foldl ?f (accounts st) es)" for e
  proof -
    from that set_foldl_Map_set [of "accounts st" es] have "e \<in> set (accounts st) \<or> e \<in> set es"
      by blast
    then show ?thesis using range [of e] wfD(3) [OF assms(1), of e] h by auto
  qed
  show "wf (st\<lparr>heap := h, accounts := new_Map (accounts st @ es)\<rparr>)"
    using dk dv valid by (simp add: wf_def nm)
  have "map (\<lambda>e. (fst e, h ! snd e)) (foldl ?f (accounts st) es) =
        foldl ?f (map (\<lambda>e. (fst e, h ! snd e)) (accounts st)) (map (\<lambda>e. (fst e, h ! snd e)) es)"
    by (rule foldl_Map_set_map)
  moreover have "map (\<lambda>e. (fst e, h ! snd e)) (accounts st) = snapshot st"
    unfolding snapshot_def h using wfD(3) [OF assms(1)] by (rule deref_extend)
  moreover have "map (\<lambda>e. (fst e, h ! snd e)) es = wb"
    using assms(2) by (rule alloc_entries_deref)
  ultimately show "snapshot (st\<lparr>heap := h, accounts := new_Map (accounts st @ es)\<rparr>) =
         foldl ?f (snapshot st) wb"
    by (simp add: snapshot_def nm)
qed

lemma setPolkadot_cases:
  obtains (unchanged) "heap (snd (setPolkadotAccountsWithBalance ev w st)) = heap st"
      "accounts (snd (setPolkadotAccountsWithBalance ev w st)) = accounts st"
      "savedAccounts (snd (setPolkadotAccountsWithBalance ev w st)) = savedAccounts st"
  | (merged) balance_get pa wb es h where "sdk ev = Some balance_get" "connectWallet ev w = Inr pa"
      "pa \<noteq> []" "setPolkadot_loop balance_get pa pa = Inr wb" "alloc_entries (heap st) wb = (es, h)"
      "setPolkadotAccountsWithBalance ev w st =
        (Resolved, persistEffect (st\<lparr>heap := h, accounts := new_Map (accounts st @ es)\<rparr>))"
proof (cases "sdk ev")
  case None
  then show ?thesis using unchanged by (simp add: setPolkadotAccountsWithBalance_def)
next
  case (Some bg)
  show ?thesis
  proof (cases "connectWallet ev w")
    case (Inl e)
    then show ?thesis using unchanged Some by (simp add: setPolkadotAccountsWithBalance_def)
  next
    case (Inr pa)
    show ?thesis
    proof (cases "pa = []")
      case True
      then show ?thesis using unchanged Some Inr by (simp add: setPolkadotAccountsWithBalance_def)
    next
      case False
      show ?thesis
      proof (cases "setPolkadot_loop bg pa pa")
        case (Inl e)
        then show ?thesis using unchanged Some Inr False
          by (simp add: setPolkadotAccountsWithBalance_def)
      next
        case wb: (Inr wb)
        obtain es h where a: "alloc_entries (heap st) wb = (es, h)"
          by (cases "alloc_entries (heap st) wb")
        then show ?thesis using merged [OF Some Inr False wb a] Some Inr False wb
          by (simp add: setPolkadotAccountsWithBalance_def)
      qed
    qed
  qed
qed

lemma wf_setPolkadot: "wf st \<Longrightarrow> wf (snd (setPolkadotAccountsWithBalance ev w st))"
proof (cases ev w st rule: setPolkadot_cases)
  case unchanged
  assume "wf st"
  then show ?thesis using unchanged by (simp add: wf_def)
next
  case (merged balance_get pa wb es h)
  assume "wf st"
  then show ?thesis using merged wf_merge(1) by simp
qed

lemma purge_filter:
  "foldl (\<lambda>newAccounts e. if Q e then Map_delete newAccounts (fst e) else newAccounts) m es =
   filter (\<lambda>x. fst x \<notin> fst ` {e \<in> set es. Q e}) m"
proof (induction es arbitrary: m)
  case Nil
  then show ?case by simp
next
  case (Cons e es)
  show ?case
  proof (cases "Q e")
    case True
    have "{x \<in> set (e # es). Q x} = insert e {x \<in> set es. Q x}" using True by auto
    then show ?thesis using True Cons.IH [of "Map_delete m (fst e)"]
      by (simp add: Map_delete_def conj_commute)
  next
    case False
    have "{x \<in> set (e # es). Q x} = {x \<in> set es. Q x}" using False by auto
    then show ?thesis using False Cons.IH [of m] by simp
  qed
qed

lemma purgeEthereum_filter:
  "purgeEthereum h m =
     filter (\<lambda>x. fst x \<notin> fst ` {e \<in> set m. signerType (h ! snd e) = Ethereum}) m"
  unfolding purgeEthereum_def by (rule purge_filter)

lemma filterSaved_frame [simp]:
  "heap (filterSaved st) = heap st" "accounts (filterSaved st) = accounts st"
  by (simp_all add: filterSaved_def split: option.splits sum.splits)

lemma wf_filter:
  "wf st \<Longrightarrow> heap st' = heap st \<Longrightarrow> accounts st' = filter P (accounts st) \<Longrightarrow> wf st'"
  by (simp add: wf_def distinct_map_filter)

lemma wf_disconnectEffect: "wf st \<Longrightarrow> wf (disconnectEffect ev st)"
proof (cases "useAccount_address ev")
  case None
  assume "wf st"
  then have "wf (filterSaved st)" by (simp add: wf_def)
  then have "wf ((filterSaved st)\<lparr>accounts := purgeEthereum (heap st) (accounts st)\<rparr>)"
    by (rule wf_filter) (simp_all add: purgeEthereum_filter)
  then show ?thesis using None by (simp add: disconnectEffect_def Let_def)
next
  case (Some a)
  assume "wf st"
  then show ?thesis using Some by (simp add: disconnectEffect_def)
qed

lemma wf_clearAccounts: "wf (clearAccounts st)"
  by (simp add: clearAccounts_def wf_def)

lemma wf_initialState: "wf (initialState sa sid)"
  by (simp add: initialState_def wf_def)

subsection \<open>Reinitialization\<close>

text \<open>The loop of \<open>reinitializePolkadotAccountsWithBalance\<close>, object by object.\<close>

lemma refreshed_idem:
  "refreshed ev bg k (refreshed ev bg k a) = refreshed ev bg k a"
  by (simp add: refreshed_def split: sum.splits option.splits)

lemma reinitialize_step_heap:
  "snd e < length h \<Longrightarrow>
   fst (reinitialize_step ev bg e (h, u, c)) = h[snd e := refreshed ev bg (fst e) (h ! snd e)]"
  by (simp add: reinitialize_step_def refreshed_def Let_def split: sum.splits option.splits)

lemma reinitialize_step_updated:
  "set (fst (snd (reinitialize_step ev bg e (h, u, c)))) \<subseteq> insert e (set u)"
proof -
  have "set (Map_set u (fst e) (snd e)) \<subseteq> insert e (set u)"
    using set_Map_set [of u "fst e" "snd e"] by simp
  moreover have "set u \<subseteq> insert e (set u)" by (rule subset_insertI)
  ultimately show ?thesis
    by (simp add: reinitialize_step_def Let_def split: sum.splits option.splits)
qed

lemma reinitialize_loop:
  assumes "distinct (map snd es)" and "\<And>e. e \<in> set es \<Longrightarrow> snd e < length h"
    and "foldl (\<lambda>s e. reinitialize_step ev bg e s) (h, u, c) es = (h', u', c')"
  shows "length h' = length h \<and>
         (\<forall>e \<in> set es. h' ! snd e = refreshed ev bg (fst e) (h ! snd e)) \<and>
         (\<forall>i. i \<notin> snd ` set es \<longrightarrow> h' ! i = h ! i) \<and>
         set u' \<subseteq> set u \<union> set es"
  using assms
proof (induction es arbitrary: h u c)
  case Nil
  then show ?case by simp
next
  case (Cons x es)
  obtain h1 u1 c1 where s1: "reinitialize_step ev bg x (h, u, c) = (h1, u1, c1)"
    by (cases "reinitialize_step ev bg x (h, u, c)")
  have x: "snd x < length h" using Cons.prems(2) by simp
  have h1: "h1 = h[snd x := refreshed ev bg (fst x) (h ! snd x)]"
    using reinitialize_step_heap [OF x, of ev bg u c] s1 by simp
  have u1: "set u1 \<subseteq> insert x (set u)"
    using reinitialize_step_updated [of ev bg x h u c] s1 by simp
  have d: "distinct (map snd es)" and nx: "snd x \<notin> snd ` set es"
    using Cons.prems(1) by simp_all
  have v: "\<And>e. e \<in> set es \<Longrightarrow> snd e < length h1" using Cons.prems(2) h1 by simp
  have f: "foldl (\<lambda>s e. reinitialize_step ev bg e s) (h1, u1, c1) es = (h', u', c')"
    using Cons.prems(3) s1 by simp
  from Cons.IH [OF d v f] have
    len: "length h' = length h1"
    and upd: "\<forall>e \<in> set es. h' ! snd e = refreshed ev bg (fst e) (h1 ! snd e)"
    and oth: "\<forall>i. i \<notin> snd ` set es \<longrightarrow> h' ! i = h1 ! i"
    and uu: "set u' \<subseteq> set u1 \<union> set es"
    by simp_all
  have a: "length h' = length h" using len h1 by simp
  have b: "h' ! snd e = refreshed ev bg (fst e) (h ! snd e)" if e: "e \<in> set (x # es)" for e
  proof (cases "e \<in> set es")
    case True
    then have "snd e \<in> snd ` set es" by (rule imageI)
    then have "snd e \<noteq> snd x" using nx by metis
    then show ?thesis using upd True h1 by simp
  next
    case False
    then have "e = x" using e by simp
    then show ?thesis using oth nx h1 x by simp
  qed
  have c: "h' ! i = h ! i" if "i \<notin> snd ` set (x # es)" for i
    using that oth h1 by simp
  have d': "set u' \<subseteq> set u \<union> set (x # es)" using uu u1 by auto
  show ?case
  proof (intro conjI ballI allI impI)
    show "length h' = length h" by (rule a)
    show "h' ! snd e = refreshed ev bg (fst e) (h ! snd e)" if "e \<in> set (x # es)" for e
      using that by (rule b)
    show "h' ! i = h ! i" if "i \<notin> snd ` set (x # es)" for i using that by (rule c)
    show "set u' \<subseteq> set u \<union> set (x # es)" by (rule d')
  qed
qed

lemma foldl_Map_set_same:
  "(\<And>e. e \<in> set u \<Longrightarrow> map_of m (fst e) = Some (snd e)) \<Longrightarrow>
   foldl (\<lambda>m e. Map_set m (fst e) (snd e)) m u = m"
  by (induction u) (simp_all add: Map_set_same)

lemma reinitialize_early:
  "sdk ev = None \<or> accounts st = [] \<Longrightarrow> reinitializePolkadotAccountsWithBalance ev st = (Resolved, st)"
  by (auto simp: reinitializePolkadotAccountsWithBalance_def split: option.splits)

lemma reinitialize_wf:
  assumes "wf st" and "sdk ev = Some bg" and "accounts st \<noteq> []"
  shows "\<exists>h c.
    reinitializePolkadotAccountsWithBalance ev st =
       (Resolved, persistEffect (st\<lparr>heap := h, console := c\<rparr>)) \<and>
    length h = length (heap st) \<and>
    (\<forall>e \<in> set (accounts st). h ! snd e = refreshed ev bg (fst e) (heap st ! snd e)) \<and>
    (\<forall>i. i \<notin> snd ` set (accounts st) \<longrightarrow> h ! i = heap st ! i)"
proof -
  obtain h u c where f: "foldl (\<lambda>s e. reinitialize_step ev bg e s) (heap st, [], console st) (accounts st) = (h, u, c)"
    by (cases "foldl (\<lambda>s e. reinitialize_step ev bg e s) (heap st, [], console st) (accounts st)")
  from reinitialize_loop [OF wfD(2) [OF assms(1)] wfD(3) [OF assms(1)] f]
  have len: "length h = length (heap st)"
    and upd: "\<forall>e \<in> set (accounts st). h ! snd e = refreshed ev bg (fst e) (heap st ! snd e)"
    and oth: "\<forall>i. i \<notin> snd ` set (accounts st) \<longrightarrow> h ! i = heap st ! i"
    and u: "set u \<subseteq> set (accounts st)"
    by simp_all
  have "map_of (accounts st) (fst e) = Some (snd e)" if "e \<in> set u" for e
  proof -
    have "(fst e, snd e) \<in> set (accounts st)" using that u by auto
    with wfD(1) [OF assms(1)] show ?thesis by (rule map_of_is_SomeI)
  qed
  then have same: "foldl (\<lambda>m e. Map_set m (fst e) (snd e)) (accounts st) u = accounts st"
    by (rule foldl_Map_set_same)
  have "st\<lparr>heap := h, console := c, accounts := accounts st\<rparr> = st\<lparr>heap := h, console := c\<rparr>"
    by simp
  then have "reinitializePolkadotAccountsWithBalance ev st =
       (Resolved, persistEffect (st\<lparr>heap := h, console := c\<rparr>))"
    using assms(2,3) f same by (simp add: reinitializePolkadotAccountsWithBalance_def)
  with len upd oth show ?thesis by (intro exI conjI)
qed

lemma snapshot_reinitialize:
  assumes "wf st" and "sdk ev = Some bg"
  shows "snapshot (snd (reinitializePolkadotAccountsWithBalance ev st)) =
         map (\<lambda>e. (fst e, refreshed ev bg (fst e) (snd e))) (snapshot st)"
proof (cases "accounts st = []")
  case True
  then have "reinitializePolkadotAccountsWithBalance ev st = (Resolved, st)"
    by (intro reinitialize_early disjI2)
  then show ?thesis using True by (simp add: snapshot_def)
next
  case False
  from reinitialize_wf [OF assms False] obtain h c where
    r: "reinitializePolkadotAccountsWithBalance ev st =
       (Resolved, persistEffect (st\<lparr>heap := h, console := c\<rparr>))"
    and upd: "\<forall>e \<in> set (accounts st). h ! snd e = refreshed ev bg (fst e) (heap st ! snd e)"
    by (elim exE conjE)
  have "map (\<lambda>e. (fst e, h ! snd e)) (accounts st) =
        map (\<lambda>e. (fst e, refreshed ev bg (fst e) (heap st ! snd e))) (accounts st)"
    by (rule map_cong [OF refl]) (simp add: upd)
  moreover have "snapshot (snd (reinitializePolkadotAccountsWithBalance ev st)) =
        map (\<lambda>e. (fst e, h ! snd e)) (accounts st)"
    by (simp add: r snapshot_def)
  ultimately show ?thesis by (simp add: snapshot_def comp_def)
qed

lemma wf_reinitialize:
  assumes "wf st"
  shows "wf (snd (reinitializePolkadotAccountsWithBalance ev st))"
proof (cases "sdk ev = None \<or> accounts st = []")
  case True
  then have "reinitializePolkadotAccountsWithBalance ev st = (Resolved, st)"
    by (rule reinitialize_early)
  then show ?thesis using assms by simp
next
  case False
  then obtain bg where bg: "sdk ev = Some bg" and ne: "accounts st \<noteq> []" by auto
  from reinitialize_wf [OF assms bg ne] obtain h c where
    r: "reinitializePolkadotAccountsWithBalance ev st =
       (Resolved, persistEffect (st\<lparr>heap := h, console := c\<rparr>))"
    and len: "length h = length (heap st)"
    by (elim exE conjE)
  show ?thesis using r len assms by (simp add: wf_def)
qed

lemma wf_step: "wf st \<Longrightarrow> wf (step e st)"
  by (cases e)
    (simp_all add: wf_updateEthereumWallet wf_disconnectEffect wf_setPolkadot wf_reinitialize
      wf_clearAccounts)

lemma wf_run: "wf st \<Longrightarrow> wf (run evs st)"
  unfolding run_def by (induction evs arbitrary: st) (simp_all add: wf_step)

lemma wf_restoreEffect: "wf st \<Longrightarrow> wf (snd (restoreEffect st))"
proof -
  assume w: "wf st"
  have w0: "wf (st\<lparr>accounts := []\<rparr>)" by (simp add: wf_def)
  have parsed: "wf (persistEffect (st\<lparr>heap := h, accounts := new_Map es\<rparr>))"
    if "alloc_entries (heap st) parsedAccounts = (es, h)" for parsedAccounts es h
  proof -
    have "alloc_entries (heap (st\<lparr>accounts := []\<rparr>)) parsedAccounts = (es, h)" using that by simp
    from wf_merge(1) [OF w0 this] show ?thesis by simp
  qed
  show ?thesis
    using w w0 parsed
    by (auto simp: restoreEffect_def Let_def wf_def split: option.splits sum.splits prod.splits)
qed

text \<open>
  Claim C7. With the same answers of the wallet extension and of the balance oracle,
  running \<open>reinitializePolkadotAccountsWithBalance\<close> a second time changes nothing a
  reader can see: the snapshot, the objects, the map, the selection and the saved slot
  are those left by the first run.
\<close>

theorem reinitialize_idempotent:
  assumes "wf st"
  shows "snapshot (snd (reinitializePolkadotAccountsWithBalance ev
                          (snd (reinitializePolkadotAccountsWithBalance ev st)))) =
           snapshot (snd (reinitializePolkadotAccountsWithBalance ev st)) \<and>
         heap (snd (reinitializePolkadotAccountsWithBalance ev
                      (snd (reinitializePolkadotAccountsWithBalance ev st)))) =
           heap (snd (reinitializePolkadotAccountsWithBalance ev st)) \<and>
         accounts (snd (reinitializePolkadotAccountsWithBalance ev
                      (snd (reinitializePolkadotAccountsWithBalance ev st)))) =
           accounts (snd (reinitializePolkadotAccountsWithBalance ev st)) \<and>
         selectedAccountId (snd (reinitializePolkadotAccountsWithBalance ev
                      (snd (reinitializePolkadotAccountsWithBalance ev st)))) =
           selectedAccountId (snd (reinitializePolkadotAccountsWithBalance ev st)) \<and>
         savedAccounts (snd (reinitializePolkadotAccountsWithBalance ev
                      (snd (reinitializePolkadotAccountsWithBalance ev st)))) =
           savedAccounts (snd (reinitializePolkadotAccountsWithBalance ev st))"
proof (cases "sdk ev = None \<or> accounts st = []")
  case True
  then have "reinitializePolkadotAccountsWithBalance ev st = (Resolved, st)"
    by (rule reinitialize_early)
  then show ?thesis by simp
next
  case False
  then obtain bg where bg: "sdk ev = Some bg" and ne: "accounts st \<noteq> []" by auto
  let ?st1 = "snd (reinitializePolkadotAccountsWithBalance ev st)"
  from reinitialize_wf [OF assms bg ne] obtain h c where
    r1: "reinitializePolkadotAccountsWithBalance ev st =
       (Resolved, persistEffect (st\<lparr>heap := h, console := c\<rparr>))"
    and len1: "length h = length (heap st)"
    and upd1: "\<forall>e \<in> set (accounts st). h ! snd e = refreshed ev bg (fst e) (heap st ! snd e)"
    by (elim exE conjE)
  have wf1: "wf ?st1" using assms by (rule wf_reinitialize)
  have acc1: "accounts ?st1 = accounts st" and heap1: "heap ?st1 = h" using r1 by simp_all
  have ne1: "accounts ?st1 \<noteq> []" using acc1 ne by simp
  from reinitialize_wf [OF wf1 bg ne1] obtain h2 c2 where
    r2: "reinitializePolkadotAccountsWithBalance ev ?st1 =
       (Resolved, persistEffect (?st1\<lparr>heap := h2, console := c2\<rparr>))"
    and len2: "length h2 = length (heap ?st1)"
    and upd2: "\<forall>e \<in> set (accounts ?st1). h2 ! snd e = refreshed ev bg (fst e) (heap ?st1 ! snd e)"
    and oth2: "\<forall>i. i \<notin> snd ` set (accounts ?st1) \<longrightarrow> h2 ! i = heap ?st1 ! i"
    by (elim exE conjE)
  have same: "h2 = h"
  proof (rule nth_equalityI)
    show "length h2 = length h" using len2 heap1 by simp
  next
    fix i assume "i < length h2"
    show "h2 ! i = h ! i"
    proof (cases "i \<in> snd ` set (accounts st)")
      case True
      then obtain e where e: "e \<in> set (accounts st)" "i = snd e" by blast
      have a: "h2 ! snd e = refreshed ev bg (fst e) (h ! snd e)"
        using upd2 e(1) acc1 heap1 by simp
      have b: "h ! snd e = refreshed ev bg (fst e) (heap st ! snd e)" using upd1 e(1) by simp
      have "h2 ! snd e = h ! snd e" unfolding a unfolding b by (rule refreshed_idem)
      then show ?thesis using e(2) by simp
    next
      case False
      then show ?thesis using oth2 acc1 heap1 by simp
    qed
  qed
  let ?st2 = "snd (reinitializePolkadotAccountsWithBalance ev ?st1)"
  have st2: "?st2 = persistEffect (?st1\<lparr>heap := h, console := c2\<rparr>)" using r2 same by simp
  have heap2: "heap ?st2 = heap ?st1" using st2 heap1 by simp
  have acc2: "accounts ?st2 = accounts ?st1" using st2 by simp
  have snap2: "snapshot ?st2 = snapshot ?st1" using heap2 acc2 by (simp add: snapshot_def)
  have sel2: "selectedAccountId ?st2 = selectedAccountId ?st1" using st2 by simp
  have "savedAccounts ?st1 = Some (JSON_stringify (snapshot ?st1))"
    using r1 ne by (simp add: persistEffect_def snapshot_def)
  moreover have "savedAccounts ?st2 = Some (JSON_stringify (snapshot ?st2))"
    using st2 ne1 by (simp add: persistEffect_def snapshot_def)
  ultimately have saved2: "savedAccounts ?st2 = savedAccounts ?st1" using snap2 by simp
  show ?thesis using snap2 heap2 acc2 sel2 saved2 by simp
qed

lemma wf_state_alice_bob: "wf state_alice_bob"
  by (simp add: wf_def state_alice_bob_def)

theorem reinitialize_idempotent_witness:
  "wf state_alice_bob \<and>
   snapshot (snd (reinitializePolkadotAccountsWithBalance
                    (env_example oracle_bob_fails None wallet_alice_bob)
                    (snd (reinitializePolkadotAccountsWithBalance
                            (env_example oracle_bob_fails None wallet_alice_bob)
                            state_alice_bob)))) =
     snapshot (snd (reinitializePolkadotAccountsWithBalance
                      (env_example oracle_bob_fails None wallet_alice_bob) state_alice_bob))"
  using wf_state_alice_bob
    reinitialize_idempotent [OF wf_state_alice_bob,
      of "env_example oracle_bob_fails None wallet_alice_bob"]
  by simp

subsection \<open>Failures during synchronization\<close>

lemma reinitialize_resolves: "fst (reinitializePolkadotAccountsWithBalance ev st) = Resolved"
  by (simp add: reinitializePolkadotAccountsWithBalance_def split: option.splits prod.splits)

lemma reinitialize_step_console:
  "set c \<subseteq> set (snd (snd (reinitialize_step ev bg e (h, u, c))))"
  by (auto simp: reinitialize_step_def Let_def split: sum.splits option.splits)

lemma reinitialize_step_logs:
  assumes "signerType (h ! snd e) = Polkadot"
    and "(\<exists>err. getAccounts ev (walletType (h ! snd e)) = Inl err) \<or>
         (\<exists>wa w err. getAccounts ev (walletType (h ! snd e)) = Inr wa \<and>
            Map_get wa (normalizedAddress (h ! snd e)) = Some w \<and> bg (fst e) = Inl err)"
  shows "''Failed to reinitialize Polkadot account '' @ fst e @ '':'' \<in>
           set (snd (snd (reinitialize_step ev bg e (h, u, c))))"
  using assms by (auto simp: reinitialize_step_def Let_def)

lemma reinitialize_loop_console:
  "set c \<subseteq> set (snd (snd (foldl (\<lambda>s e. reinitialize_step ev bg e s) (h, u, c) es)))"
proof (induction es arbitrary: h u c)
  case Nil
  then show ?case by simp
next
  case (Cons x es)
  obtain h1 u1 c1 where s1: "reinitialize_step ev bg x (h, u, c) = (h1, u1, c1)"
    by (cases "reinitialize_step ev bg x (h, u, c)")
  have "set c \<subseteq> set c1" using reinitialize_step_console [of c ev bg x h u] s1 by simp
  moreover have "set c1 \<subseteq> set (snd (snd (foldl (\<lambda>s e. reinitialize_step ev bg e s) (h1, u1, c1) es)))"
    by (rule Cons.IH)
  ultimately show ?case using s1 by auto
qed

lemma reinitialize_loop_logs:
  assumes "distinct (map snd es)" and "\<And>e. e \<in> set es \<Longrightarrow> snd e < length h"
    and "e \<in> set es" and "signerType (h ! snd e) = Polkadot"
    and "(\<exists>err. getAccounts ev (walletType (h ! snd e)) = Inl err) \<or>
         (\<exists>wa w err. getAccounts ev (walletType (h ! snd e)) = Inr wa \<and>
            Map_get wa (normalizedAddress (h ! snd e)) = Some w \<and> bg (fst e) = Inl err)"
  shows "''Failed to reinitialize Polkadot account '' @ fst e @ '':'' \<in>
           set (snd (snd (foldl (\<lambda>s e. reinitialize_step ev bg e s) (h, u, c) es)))"
  using assms
proof (induction es arbitrary: h u c)
  case Nil
  then show ?case by simp
next
  case (Cons x es)
  obtain h1 u1 c1 where s1: "reinitialize_step ev bg x (h, u, c) = (h1, u1, c1)"
    by (cases "reinitialize_step ev bg x (h, u, c)")
  show ?case
  proof (cases "e = x")
    case True
    have "''Failed to reinitialize Polkadot account '' @ fst e @ '':'' \<in> set c1"
      using reinitialize_step_logs [where h = h and e = e and ev = ev and bg = bg and u = u
          and c = c] Cons.prems(4,5) s1 True
      by simp
    moreover have "set c1 \<subseteq> set (snd (snd (foldl (\<lambda>s e. reinitialize_step ev bg e s) (h1, u1, c1) es)))"
      by (rule reinitialize_loop_console)
    ultimately show ?thesis using s1 by auto
  next
    case False
    then have e: "e \<in> set es" using Cons.prems(3) by simp
    have x: "snd x < length h" using Cons.prems(2) by simp
    have h1: "h1 = h[snd x := refreshed ev bg (fst x) (h ! snd x)]"
      using reinitialize_step_heap [OF x, of ev bg u c] s1 by simp
    have "snd e \<in> snd ` set es" using e by (rule imageI)
    moreover have "snd x \<notin> snd ` set es" using Cons.prems(1) by simp
    ultimately have ne: "snd e \<noteq> snd x" by metis
    have same: "h1 ! snd e = h ! snd e" using h1 ne by simp
    have d: "distinct (map snd es)" using Cons.prems(1) by simp
    have v: "\<And>y. y \<in> set es \<Longrightarrow> snd y < length h1" using Cons.prems(2) h1 by simp
    have "''Failed to reinitialize Polkadot account '' @ fst e @ '':'' \<in>
           set (snd (snd (foldl (\<lambda>s e. reinitialize_step ev bg e s) (h1, u1, c1) es)))"
      using Cons.IH [OF d v e] Cons.prems(4,5) same by simp
    then show ?thesis using s1 by simp
  qed
qed

lemma console_reinitialize:
  assumes "sdk ev = Some bg" and "accounts st \<noteq> []"
  shows "console (snd (reinitializePolkadotAccountsWithBalance ev st)) =
         snd (snd (foldl (\<lambda>s e. reinitialize_step ev bg e s) (heap st, [], console st) (accounts st)))"
  using assms
  by (simp add: reinitializePolkadotAccountsWithBalance_def split: prod.splits)


lemma map_of_map_entry:
  assumes "distinct (map fst xs)" and "(k, v) \<in> set xs"
  shows "map_of (map (\<lambda>e. (fst e, f (fst e) (snd e))) xs) k = Some (f k v)"
proof -
  have "map fst (map (\<lambda>e. (fst e, f (fst e) (snd e))) xs) = map fst xs" by (simp add: comp_def)
  then have "distinct (map fst (map (\<lambda>e. (fst e, f (fst e) (snd e))) xs))"
    using assms(1) by (simp only:)
  moreover have "(k, f k v) \<in> set (map (\<lambda>e. (fst e, f (fst e) (snd e))) xs)"
    using assms(2) by force
  ultimately show ?thesis by (rule map_of_is_SomeI)
qed

lemma snapshot_keys [simp]: "map fst (snapshot st) = map fst (accounts st)"
  by (simp add: snapshot_def comp_def)

lemma in_snapshot: "(k, r) \<in> set (accounts st) \<Longrightarrow> (k, heap st ! r) \<in> set (snapshot st)"
  by (force simp: snapshot_def)

text \<open>
  Claim C3, as the code has it. \<open>reinitializePolkadotAccountsWithBalance\<close> always
  resolves; an account whose wallet listing and balance fetch succeed is refreshed whatever
  happens to the other accounts of the batch; a failing listing or fetch is logged under
  the account's address. \<open>setPolkadotAccountsWithBalance\<close> has no such handler: a failing
  balance fetch rejects the operation and leaves the state as it was.
\<close>

theorem reinitialize_isolates_failures:
  assumes "wf st" and "sdk ev = Some bg" and "(k, r) \<in> set (accounts st)"
    and "signerType (heap st ! r) = Polkadot"
  shows
    "fst (reinitializePolkadotAccountsWithBalance ev st) = Resolved \<and>
     (\<forall>wa w resp.
        getAccounts ev (walletType (heap st ! r)) = Inr wa \<and>
        Map_get wa (normalizedAddress (heap st ! r)) = Some w \<and> bg k = Inr resp \<longrightarrow>
        Map_get (snapshot (snd (reinitializePolkadotAccountsWithBalance ev st))) k =
          Some ((heap st ! r)\<lparr>signer := signer w, balance := Some (computeBalance resp)\<rparr>)) \<and>
     ((\<exists>err. getAccounts ev (walletType (heap st ! r)) = Inl err) \<or>
      (\<exists>wa w err. getAccounts ev (walletType (heap st ! r)) = Inr wa \<and>
         Map_get wa (normalizedAddress (heap st ! r)) = Some w \<and> bg k = Inl err) \<longrightarrow>
      ''Failed to reinitialize Polkadot account '' @ k @ '':'' \<in>
        set (console (snd (reinitializePolkadotAccountsWithBalance ev st)))) \<and>
     (\<forall>w pa k' a err.
        connectWallet ev w = Inr pa \<and> (k', a) \<in> set pa \<and> bg k' = Inl err \<longrightarrow>
        (\<exists>e'. setPolkadotAccountsWithBalance ev w st = (Rejected e', st)))"
proof (intro conjI allI impI)
  show "fst (reinitializePolkadotAccountsWithBalance ev st) = Resolved"
    by (rule reinitialize_resolves)
next
  fix wa w resp
  assume a: "getAccounts ev (walletType (heap st ! r)) = Inr wa \<and>
        Map_get wa (normalizedAddress (heap st ! r)) = Some w \<and> bg k = Inr resp"
  have "map_of (map (\<lambda>e. (fst e, refreshed ev bg (fst e) (snd e))) (snapshot st)) k =
        Some (refreshed ev bg k (heap st ! r))"
    using wfD(1) [OF assms(1)] in_snapshot [OF assms(3)] by (intro map_of_map_entry) simp_all
  moreover have "refreshed ev bg k (heap st ! r) =
        (heap st ! r)\<lparr>signer := signer w, balance := Some (computeBalance resp)\<rparr>"
    using a assms(4) by (simp add: refreshed_def)
  ultimately show "Map_get (snapshot (snd (reinitializePolkadotAccountsWithBalance ev st))) k =
          Some ((heap st ! r)\<lparr>signer := signer w, balance := Some (computeBalance resp)\<rparr>)"
    by (simp add: snapshot_reinitialize [OF assms(1,2)] Map_get_def)
next
  assume f: "(\<exists>err. getAccounts ev (walletType (heap st ! r)) = Inl err) \<or>
      (\<exists>wa w err. getAccounts ev (walletType (heap st ! r)) = Inr wa \<and>
         Map_get wa (normalizedAddress (heap st ! r)) = Some w \<and> bg k = Inl err)"
  have ne: "accounts st \<noteq> []" using assms(3) by auto
  have "''Failed to reinitialize Polkadot account '' @ fst (k, r) @ '':'' \<in>
        set (snd (snd (foldl (\<lambda>s e. reinitialize_step ev bg e s) (heap st, [], console st)
                         (accounts st))))"
    using wfD(2) [OF assms(1)] wfD(3) [OF assms(1)] assms(3)
  proof (rule reinitialize_loop_logs)
    show "signerType (heap st ! snd (k, r)) = Polkadot" using assms(4) by simp
    show "(\<exists>err. getAccounts ev (walletType (heap st ! snd (k, r))) = Inl err) \<or>
      (\<exists>wa w err. getAccounts ev (walletType (heap st ! snd (k, r))) = Inr wa \<and>
         Map_get wa (normalizedAddress (heap st ! snd (k, r))) = Some w \<and> bg (fst (k, r)) = Inl err)"
      using f by simp
  qed
  then show "''Failed to reinitialize Polkadot account '' @ k @ '':'' \<in>
        set (console (snd (reinitializePolkadotAccountsWithBalance ev st)))"
    by (simp add: console_reinitialize [OF assms(2) ne])
next
  fix w pa k' a err
  assume a: "connectWallet ev w = Inr pa \<and> (k', a) \<in> set pa \<and> bg k' = Inl err"
  then obtain e' where "setPolkadot_loop bg pa pa = Inl e'"
    using setPolkadot_loop_fails by blast
  moreover from a have "pa \<noteq> []" by auto
  ultimately show "\<exists>e'. setPolkadotAccountsWithBalance ev w st = (Rejected e', st)"
    using a assms(2) by (simp add: setPolkadotAccountsWithBalance_def)
qed

text \<open>
  Claim C3 as worded fails for \<open>setPolkadotAccountsWithBalance\<close>: the failing fetch
  of the first account is not caught, the second account is never processed and the
  failure leaves the operation.
\<close>

theorem setPolkadot_propagates_failure:
  "setPolkadotAccountsWithBalance (env_example oracle_bob_fails None wallet_bob_alice)
     ''polkadot-js'' (initialState None None) =
   (Rejected (Error ''network''), initialState None None)"
  by (simp add: setPolkadotAccountsWithBalance_def env_example_def wallet_bob_alice_def
      oracle_bob_fails_def)

text \<open>
  Claim C4 at a failing input. The wallet lists both accounts and the balance fetch of
  \<open>bob\<close> fails: the balance of \<open>bob\<close> is the old one, but its signer has already been
  assigned, because the loop writes \<open>account.signer\<close> to the registry's own object
  before it awaits the balance.
\<close>

theorem reinitialize_signer_changed_on_failed_balance:
  "oracle_bob_fails ''bob'' = Inl (Error ''network'') \<and>
   snapshot state_alice_bob =
     [(''alice'', polkadotAccount ''alice'' ''Alice'' None (Some 1)),
      (''bob'', polkadotAccount ''bob'' ''Bob'' None (Some 2))] \<and>
   snapshot (snd (reinitializePolkadotAccountsWithBalance
                    (env_example oracle_bob_fails None wallet_alice_bob) state_alice_bob)) =
     [(''alice'', polkadotAccount ''alice'' ''Alice'' (Some 1) (Some (3 / 2))),
      (''bob'', polkadotAccount ''bob'' ''Bob'' (Some 2) (Some 2))]"
  by code_simp


theorem reinitialize_isolates_failures_witness:
  "wf state_alice_bob \<and>
   sdk (env_example oracle_bob_fails None wallet_alice_bob) = Some oracle_bob_fails \<and>
   (''alice'', 0) \<in> set (accounts state_alice_bob) \<and>
   signerType (heap state_alice_bob ! 0) = Polkadot \<and>
   oracle_bob_fails ''bob'' = Inl (Error ''network'') \<and>
   fst (reinitializePolkadotAccountsWithBalance
          (env_example oracle_bob_fails None wallet_alice_bob) state_alice_bob) = Resolved \<and>
   Map_get (snapshot (snd (reinitializePolkadotAccountsWithBalance
                             (env_example oracle_bob_fails None wallet_alice_bob)
                             state_alice_bob))) ''alice'' =
     Some (polkadotAccount ''alice'' ''Alice'' (Some 1) (Some (3 / 2)))"
proof -
  let ?ev = "env_example oracle_bob_fails None wallet_alice_bob"
  have h1: "wf state_alice_bob" by (rule wf_state_alice_bob)
  have h2: "sdk ?ev = Some oracle_bob_fails" by (simp add: env_example_def)
  have h3: "(''alice'', 0) \<in> set (accounts state_alice_bob)" by (simp add: state_alice_bob_def)
  have h4: "signerType (heap state_alice_bob ! 0) = Polkadot"
    by (simp add: state_alice_bob_def polkadotAccount_def)
  have b: "oracle_bob_fails ''bob'' = Inl (Error ''network'')" by (simp add: oracle_bob_fails_def)
  have g: "getAccounts ?ev (walletType (heap state_alice_bob ! 0)) = Inr wallet_alice_bob \<and>
     Map_get wallet_alice_bob (normalizedAddress (heap state_alice_bob ! 0)) =
       Some (polkadotAccount ''alice'' ''Alice'' (Some 1) None) \<and>
     oracle_bob_fails ''alice'' = Inr \<lparr>available = 1500000000000000000, decimals = 18\<rparr>"
    by (simp add: env_example_def state_alice_bob_def polkadotAccount_def wallet_alice_bob_def
        Map_get_def oracle_bob_fails_def oracle_ok_def)
  from reinitialize_isolates_failures [OF h1 h2 h3 h4] g
  have r: "fst (reinitializePolkadotAccountsWithBalance ?ev state_alice_bob) = Resolved"
    and m: "Map_get (snapshot (snd (reinitializePolkadotAccountsWithBalance ?ev state_alice_bob)))
             ''alice'' =
       Some ((heap state_alice_bob ! 0)
               \<lparr>signer := signer (polkadotAccount ''alice'' ''Alice'' (Some 1) None),
                balance := Some (computeBalance
                                   \<lparr>available = 1500000000000000000, decimals = 18\<rparr>)\<rparr>)"
    by blast+
  have "(heap state_alice_bob ! 0)
               \<lparr>signer := signer (polkadotAccount ''alice'' ''Alice'' (Some 1) None),
                balance := Some (computeBalance
                                   \<lparr>available = 1500000000000000000, decimals = 18\<rparr>)\<rparr> =
        polkadotAccount ''alice'' ''Alice'' (Some 1) (Some (3 / 2))"
    by (simp add: state_alice_bob_def polkadotAccount_def computeBalance_example)
  with h1 h2 h3 h4 b r m show ?thesis by simp
qed

subsection \<open>Ethereum records\<close>

lemma ethereumKeys_same:
  "heap st' = heap st \<Longrightarrow> accounts st' = accounts st \<Longrightarrow> ethereumKeys st' = ethereumKeys st"
  by (simp add: ethereumKeys_def snapshot_def)

lemma ethereumKeys_mono:
  "set (snapshot st') \<subseteq> set (snapshot st) \<union> X \<Longrightarrow>
   ethereumKeys st' \<subseteq> ethereumKeys st \<union> fst ` {e \<in> X. isEthereum e}"
  unfolding ethereumKeys_def by blast

lemma ethereumKeys_updateEthereumWallet:
  assumes "wf st"
  shows "ethereumKeys (snd (updateEthereumWallet ev st)) \<subseteq>
         ethereumKeys st \<union> syncedKey (UpdateEthereumWallet ev)"
proof (cases ev st rule: updateEthereumWallet_cases)
  case unchanged
  then show ?thesis by simp
next
  case (written a resp)
  let ?k = "substrateOrMirrorIfEthereumNormalized ev a"
  let ?x = "ethereumAccount a (Some (computeBalance resp))"
  have "snapshot (snd (updateEthereumWallet ev st)) = Map_set (snapshot st) ?k ?x"
    using written(2) snapshot_write [OF assms] by simp
  then have "set (snapshot (snd (updateEthereumWallet ev st))) \<subseteq> set (snapshot st) \<union> {(?k, ?x)}"
    using set_Map_set [of "snapshot st" ?k ?x] by simp
  from ethereumKeys_mono [OF this] show ?thesis using written(1) by auto
qed

lemma withBalance_Polkadot: "\<not> isEthereum (withBalance bg e)"
  by (simp add: isEthereum_def withBalance_def)

lemma ethereumKeys_setPolkadot:
  assumes "wf st" and "walletIsMap (SetPolkadotAccountsWithBalance ev w)"
  shows "ethereumKeys (snd (setPolkadotAccountsWithBalance ev w st)) \<subseteq> ethereumKeys st"
proof (cases ev w st rule: setPolkadot_cases)
  case unchanged
  then show ?thesis using ethereumKeys_same [OF unchanged(1,2)] by simp
next
  case (merged bg pa wb es h)
  have d: "distinct (map fst ([] @ pa))" using assms(2) merged(2) by simp
  have ok: "\<exists>r. bg (fst e) = Inr r" if "e \<in> set pa" for e
    using merged(4) that by (rule setPolkadot_loop_Inr)
  have "setPolkadot_loop bg pa ([] @ pa) = Inr ([] @ map (withBalance bg) pa)"
    using d ok by (rule setPolkadot_loop_ok)
  then have wb: "wb = map (withBalance bg) pa" using merged(4) by simp
  have "snapshot (snd (setPolkadotAccountsWithBalance ev w st)) =
        foldl (\<lambda>m e. Map_set m (fst e) (snd e)) (snapshot st) wb"
    using merged(6) wf_merge(2) [OF assms(1) merged(5)] by simp
  then have "set (snapshot (snd (setPolkadotAccountsWithBalance ev w st))) \<subseteq>
        set (snapshot st) \<union> set wb"
    using set_foldl_Map_set [of "snapshot st" wb] by simp
  then have "ethereumKeys (snd (setPolkadotAccountsWithBalance ev w st)) \<subseteq>
        ethereumKeys st \<union> fst ` {e \<in> set wb. isEthereum e}"
    by (rule ethereumKeys_mono)
  moreover have "{e \<in> set wb. isEthereum e} = {}"
    unfolding wb by (auto simp: withBalance_Polkadot)
  ultimately show ?thesis by simp
qed

lemma refreshed_signerType [simp]: "signerType (refreshed ev bg k a) = signerType a"
  by (simp add: refreshed_def split: sum.splits option.splits)

lemma ethereumKeys_reinitialize:
  assumes "wf st"
  shows "ethereumKeys (snd (reinitializePolkadotAccountsWithBalance ev st)) = ethereumKeys st"
proof (cases "sdk ev")
  case None
  then have "reinitializePolkadotAccountsWithBalance ev st = (Resolved, st)"
    by (intro reinitialize_early disjI1)
  then show ?thesis by simp
next
  case (Some bg)
  show ?thesis
    unfolding ethereumKeys_def snapshot_reinitialize [OF assms Some]
    by (force simp: isEthereum_def)
qed

lemma ethereumKeys_disconnectEffect:
  "ethereumKeys (disconnectEffect ev st) \<subseteq> ethereumKeys st"
  "useAccount_address ev = None \<Longrightarrow> ethereumKeys (disconnectEffect ev st) = {}"
proof -
  have s: "snapshot (disconnectEffect ev st) =
     filter (\<lambda>x. fst x \<notin> fst ` {e \<in> set (accounts st). signerType (heap st ! snd e) = Ethereum})
       (snapshot st)" if "useAccount_address ev = None"
    using that
    by (simp add: disconnectEffect_def Let_def snapshot_def purgeEthereum_filter filter_map comp_def)
  show "ethereumKeys (disconnectEffect ev st) \<subseteq> ethereumKeys st"
  proof (cases "useAccount_address ev")
    case None
    then show ?thesis unfolding ethereumKeys_def s [OF None] by auto
  next
    case (Some a)
    then show ?thesis by (simp add: disconnectEffect_def)
  qed
  show "ethereumKeys (disconnectEffect ev st) = {}" if "useAccount_address ev = None"
    unfolding ethereumKeys_def s [OF that]
    by (force simp: isEthereum_def snapshot_def)
qed

lemma ethereumKeys_clearAccounts: "ethereumKeys (clearAccounts st) = {}"
  by (simp add: ethereumKeys_def clearAccounts_def snapshot_def)

lemma ethereumKeys_step:
  "wf st \<Longrightarrow> walletIsMap e \<Longrightarrow> ethereumKeys (step e st) \<subseteq> ethereumKeys st \<union> syncedKey e"
proof (cases e)
  case (UpdateEthereumWallet ev)
  assume "wf st"
  then show ?thesis using UpdateEthereumWallet ethereumKeys_updateEthereumWallet by simp
next
  case (DisconnectEffect ev)
  then show ?thesis using ethereumKeys_disconnectEffect(1) by simp
next
  case (SetPolkadotAccountsWithBalance ev w)
  assume "wf st" "walletIsMap e"
  then show ?thesis using SetPolkadotAccountsWithBalance ethereumKeys_setPolkadot by simp
next
  case (ReinitializePolkadotAccountsWithBalance ev)
  assume "wf st"
  then show ?thesis using ReinitializePolkadotAccountsWithBalance ethereumKeys_reinitialize by simp
next
  case ClearAccounts
  then show ?thesis by (simp add: ethereumKeys_clearAccounts)
qed

lemma ethereumKeys_step_purge:
  assumes "wf st" and "walletIsMap e"
  shows "ethereumKeys (step e st) \<subseteq> (if purges e then {} else ethereumKeys st \<union> syncedKey e)"
proof (cases "purges e")
  case True
  then have "ethereumKeys (step e st) = {}"
    by (cases e) (simp_all add: ethereumKeys_disconnectEffect(2) ethereumKeys_clearAccounts)
  then show ?thesis using True by simp
next
  case False
  then show ?thesis using ethereumKeys_step [OF assms] by simp
qed

lemma ethereumKeys_run_purge:
  "wf st \<Longrightarrow> (\<And>e. e \<in> set evs \<Longrightarrow> walletIsMap e) \<Longrightarrow> ethereumKeys st \<subseteq> S \<Longrightarrow>
   ethereumKeys (run evs st) \<subseteq> keysSincePurge S evs"
proof (induction evs arbitrary: st S)
  case Nil
  then show ?case by (simp add: run_def)
next
  case (Cons e evs)
  let ?S = "if purges e then {} else S \<union> syncedKey e"
  have w: "wf (step e st)" using Cons.prems(1) by (rule wf_step)
  have m: "walletIsMap e" using Cons.prems(2) by simp
  have "ethereumKeys (step e st) \<subseteq> (if purges e then {} else ethereumKeys st \<union> syncedKey e)"
    using Cons.prems(1) m by (rule ethereumKeys_step_purge)
  then have s: "ethereumKeys (step e st) \<subseteq> ?S" using Cons.prems(3) by (auto split: if_splits)
  have "ethereumKeys (run evs (step e st)) \<subseteq> keysSincePurge ?S evs"
    using w Cons.prems(2) s by (intro Cons.IH) simp_all
  moreover have "run (e # evs) st = run evs (step e st)" by (simp add: run_def)
  ultimately show ?case by simp
qed

lemma finite_syncedKey: "finite (syncedKey e)"
  by (cases e) (simp_all split: option.splits)

lemma finite_keysSincePurge: "finite S \<Longrightarrow> finite (keysSincePurge S evs)"
  by (induction evs arbitrary: S) (simp_all add: finite_syncedKey)

lemma finite_ethereumKeys: "finite (ethereumKeys st)"
  by (simp add: ethereumKeys_def)

lemma length_Ethereum_records:
  assumes "wf st"
  shows "length (filter isEthereum (snapshot st)) = card (ethereumKeys st)"
proof -
  have "distinct (map fst (snapshot st))" using wfD(1) [OF assms] by simp
  then have d: "distinct (map fst (filter isEthereum (snapshot st)))"
    by (rule distinct_map_filter)
  have "set (map fst (filter isEthereum (snapshot st))) = ethereumKeys st"
    by (auto simp: ethereumKeys_def)
  then show ?thesis using distinct_card [OF d] by simp
qed

text \<open>
  Claim C1, as the code has it. \<open>updateEthereumWallet\<close> writes under the canonical key
  of the active address and removes nothing; the disconnect purge and \<open>clearAccounts\<close>
  leave no Ethereum record. So in every state reached from a well-formed one, each
  Ethereum record sits under a key of the start or of an address synchronized since the
  last purge or clear, one record for a key: there are at most as many Ethereum records
  as such keys, and never two as long as the address does not change without a purge or
  clear in between.
\<close>

theorem Ethereum_records_since_last_purge:
  assumes "wf st" and "\<forall>e \<in> set evs. walletIsMap e"
  shows "ethereumKeys (run evs st) \<subseteq> keysSincePurge (ethereumKeys st) evs \<and>
         length (filter isEthereum (snapshot (run evs st))) \<le>
           card (keysSincePurge (ethereumKeys st) evs) \<and>
         (keysSincePurge (ethereumKeys st) evs \<subseteq> {K} \<longrightarrow>
            length (filter isEthereum (snapshot (run evs st))) \<le> 1) \<and>
         (useAccount_address ev = None \<longrightarrow>
            filter isEthereum (snapshot (disconnectEffect ev st)) = []) \<and>
         filter isEthereum (snapshot (clearAccounts st)) = []"
proof (intro conjI impI)
  show sub: "ethereumKeys (run evs st) \<subseteq> keysSincePurge (ethereumKeys st) evs"
    using assms by (intro ethereumKeys_run_purge) simp_all
  have fin: "finite (keysSincePurge (ethereumKeys st) evs)"
    using finite_ethereumKeys by (rule finite_keysSincePurge)
  have len: "length (filter isEthereum (snapshot (run evs st))) = card (ethereumKeys (run evs st))"
    using wf_run [OF assms(1)] by (rule length_Ethereum_records)
  show le: "length (filter isEthereum (snapshot (run evs st))) \<le>
           card (keysSincePurge (ethereumKeys st) evs)"
    unfolding len using sub fin by (intro card_mono)
  show "length (filter isEthereum (snapshot (run evs st))) \<le> 1"
    if "keysSincePurge (ethereumKeys st) evs \<subseteq> {K}"
  proof -
    have "card (keysSincePurge (ethereumKeys st) evs) \<le> card {K}"
      using that by (intro card_mono) simp_all
    with le show ?thesis by simp
  qed
next
  assume "useAccount_address ev = None"
  then have "ethereumKeys (disconnectEffect ev st) = {}" by (rule ethereumKeys_disconnectEffect(2))
  then show "filter isEthereum (snapshot (disconnectEffect ev st)) = []"
    by (auto simp: ethereumKeys_def filter_empty_conv)
next
  show "filter isEthereum (snapshot (clearAccounts st)) = []"
    by (simp add: clearAccounts_def snapshot_def)
qed

lemma example_session_Ethereum:
  "filter isEthereum (snapshot (run example_session (initialState None None))) =
     [(''mirror:0xB'', ethereumAccount ''0xB'' (Some (Num (3 / 2))))]"
  by code_simp

theorem Ethereum_records_since_last_purge_witness:
  "wf (initialState None None) \<and> list_all walletIsMap example_session \<and>
   keysSincePurge (ethereumKeys (initialState None None)) example_session = {''mirror:0xB''} \<and>
   length (filter isEthereum (snapshot (run example_session (initialState None None)))) \<le> 1 \<and>
   length (filter isEthereum (snapshot (run example_session (initialState None None)))) = 1"
proof -
  have h1: "wf (initialState None None)" by (rule wf_initialState)
  have h2: "\<forall>e \<in> set example_session. walletIsMap e"
    by (simp add: example_session_def env_example_def wallet_alice_bob_def)
  have h3: "keysSincePurge (ethereumKeys (initialState None None)) example_session =
     {''mirror:0xB''}"
    by (simp add: example_session_def env_example_def ethereumKeys_def initialState_def
        snapshot_def)
  from Ethereum_records_since_last_purge [OF h1 h2, of "''mirror:0xB''"] h3
  have "length (filter isEthereum (snapshot (run example_session (initialState None None)))) \<le> 1"
    by simp
  with h1 h2 h3 example_session_Ethereum show ?thesis by (simp add: list_all_iff)
qed

text \<open>
  Claim C1 as worded fails when the active address changes without a disconnect in
  between: both records stay in the map.
\<close>

theorem two_Ethereum_records:
  "filter isEthereum
     (snapshot (run [UpdateEthereumWallet (env_example oracle_ok (Some ''0xA'') []),
                     UpdateEthereumWallet (env_example oracle_ok (Some ''0xB'') [])]
                  (initialState None None))) =
   [(''mirror:0xA'', ethereumAccount ''0xA'' (Some (Num (3 / 2)))),
    (''mirror:0xB'', ethereumAccount ''0xB'' (Some (Num (3 / 2))))]"
  by code_simp


subsection \<open>The saved snapshot\<close>

lemma persisted_persistEffect:
  "accounts (persistEffect x) \<noteq> [] \<longrightarrow>
   savedAccounts (persistEffect x) = Some (JSON_stringify (snapshot (persistEffect x)))"
  by (simp add: persistEffect_def snapshot_def)

lemma persisted_step:
  "(accounts (step e st) \<noteq> [] \<longrightarrow>
      savedAccounts (step e st) = Some (JSON_stringify (snapshot (step e st)))) \<or>
   (heap (step e st) = heap st \<and> accounts (step e st) = accounts st \<and>
    savedAccounts (step e st) = savedAccounts st)"
proof (cases e)
  case (UpdateEthereumWallet ev)
  show ?thesis
  proof (cases ev st rule: updateEthereumWallet_cases)
    case unchanged
    then show ?thesis using UpdateEthereumWallet by simp
  next
    case (written a resp)
    then show ?thesis using UpdateEthereumWallet persisted_persistEffect by simp
  qed
next
  case (DisconnectEffect ev)
  show ?thesis
  proof (cases "useAccount_address ev")
    case None
    then show ?thesis using DisconnectEffect persisted_persistEffect
      by (simp add: disconnectEffect_def Let_def)
  next
    case (Some a)
    then show ?thesis using DisconnectEffect by (simp add: disconnectEffect_def)
  qed
next
  case (SetPolkadotAccountsWithBalance ev w)
  show ?thesis
  proof (cases ev w st rule: setPolkadot_cases)
    case unchanged
    then show ?thesis using SetPolkadotAccountsWithBalance by simp
  next
    case (merged bg pa wb es h)
    then show ?thesis using SetPolkadotAccountsWithBalance persisted_persistEffect by simp
  qed
next
  case (ReinitializePolkadotAccountsWithBalance ev)
  show ?thesis
  proof (cases "sdk ev = None \<or> accounts st = []")
    case True
    then have "reinitializePolkadotAccountsWithBalance ev st = (Resolved, st)"
      by (rule reinitialize_early)
    then show ?thesis using ReinitializePolkadotAccountsWithBalance by simp
  next
    case False
    then obtain bg where bg: "sdk ev = Some bg" and ne: "accounts st \<noteq> []" by auto
    obtain h u c where
      "foldl (\<lambda>s e. reinitialize_step ev bg e s) (heap st, [], console st) (accounts st) =
         (h, u, c)"
      by (cases "foldl (\<lambda>s e. reinitialize_step ev bg e s) (heap st, [], console st)
                   (accounts st)")
    then have "snd (reinitializePolkadotAccountsWithBalance ev st) =
        persistEffect (st\<lparr>heap := h, console := c,
                          accounts := foldl (\<lambda>m e. Map_set m (fst e) (snd e)) (accounts st) u\<rparr>)"
      using bg ne by (simp add: reinitializePolkadotAccountsWithBalance_def)
    then show ?thesis using ReinitializePolkadotAccountsWithBalance persisted_persistEffect
      by simp
  qed
next
  case ClearAccounts
  then show ?thesis by (simp add: clearAccounts_def)
qed

lemma JSON_stringify_keys:
  "map fst (map (\<lambda>e. (fst e, JSON_stringify_account (snd e))) xs) = map fst xs"
  by (simp add: comp_def)

lemma snapshot_reload:
  assumes "wf st"
  shows "snapshot (snd (restoreEffect (initialState (Some (JSON_stringify (snapshot st))) sid))) =
         map (\<lambda>e. (fst e, JSON_stringify_account (snd e))) (snapshot st)"
proof -
  let ?es = "map (\<lambda>e. (fst e, JSON_stringify_account (snd e))) (snapshot st)"
  let ?st0 = "initialState (Some (JSON_stringify (snapshot st))) sid"
  obtain rs h where a: "alloc_entries (heap ?st0) ?es = (rs, h)"
    by (cases "alloc_entries (heap ?st0) ?es")
  have w0: "wf ?st0" by (rule wf_initialState)
  have acc0: "accounts ?st0 = []" and heap0: "heap ?st0 = []" by (simp_all add: initialState_def)
  have r: "restoreEffect ?st0 = (Resolved, persistEffect (?st0\<lparr>heap := h, accounts := new_Map rs\<rparr>))"
    using a heap0
    by (simp add: restoreEffect_def Let_def falsy_def JSON_stringify_def JSON_parse_def
        initialState_def)
  have "snapshot (?st0\<lparr>heap := h, accounts := new_Map (accounts ?st0 @ rs)\<rparr>) =
        foldl (\<lambda>m e. Map_set m (fst e) (snd e)) (snapshot ?st0) ?es"
    using w0 a by (rule wf_merge(2))
  moreover have "snapshot ?st0 = []" using acc0 by (simp add: snapshot_def)
  moreover have "distinct (map fst ?es)"
    using wfD(1) [OF assms] by (simp only: JSON_stringify_keys snapshot_keys)
  then have "new_Map ?es = ?es" by (rule new_Map_id)
  ultimately have "snapshot (?st0\<lparr>heap := h, accounts := new_Map rs\<rparr>) = ?es"
    using acc0 by (simp add: new_Map_def)
  then show ?thesis using r by simp
qed

text \<open>
  Claim C2, as the code has it. Every operation either leaves the objects, the map and
  the saved slot alone, or ends with the persistence effect, after which a map that is
  not empty is saved whole, each record without its signer. The effect writes nothing for
  an empty map: \<open>clearAccounts\<close> removes the slot, and a purge that empties the map
  leaves the slot as the purge's own filter wrote it. Restoring from a saved snapshot
  gives the same keys and data with no signer.
\<close>

theorem accounts_persisted_after_mutation:
  "((accounts (step e st) \<noteq> [] \<longrightarrow>
       savedAccounts (step e st) = Some (JSON_stringify (snapshot (step e st)))) \<or>
    (heap (step e st) = heap st \<and> accounts (step e st) = accounts st \<and>
     savedAccounts (step e st) = savedAccounts st)) \<and>
   savedAccounts (clearAccounts st) = None \<and> accounts (clearAccounts st) = [] \<and>
   (useAccount_address ev = None \<and> accounts (disconnectEffect ev st) = [] \<longrightarrow>
      savedAccounts (disconnectEffect ev st) = savedAccounts (filterSaved st)) \<and>
   (wf st \<longrightarrow>
      snapshot (snd (restoreEffect (initialState (Some (JSON_stringify (snapshot st))) sid))) =
        map (\<lambda>e. (fst e, (snd e)\<lparr>signer := None, sign := None\<rparr>)) (snapshot st))"
proof (intro conjI impI)
  show "(accounts (step e st) \<noteq> [] \<longrightarrow>
       savedAccounts (step e st) = Some (JSON_stringify (snapshot (step e st)))) \<or>
    (heap (step e st) = heap st \<and> accounts (step e st) = accounts st \<and>
     savedAccounts (step e st) = savedAccounts st)"
    by (rule persisted_step)
  show "savedAccounts (clearAccounts st) = None"
    by (simp add: clearAccounts_def persistEffect_def)
  show "accounts (clearAccounts st) = []" by (simp add: clearAccounts_def)
next
  assume a: "useAccount_address ev = None \<and> accounts (disconnectEffect ev st) = []"
  let ?x = "(filterSaved st)\<lparr>accounts := purgeEthereum (heap (filterSaved st))
                                             (accounts (filterSaved st))\<rparr>"
  have d: "disconnectEffect ev st = persistEffect ?x"
    using a by (simp add: disconnectEffect_def Let_def)
  then have "accounts ?x = []" using a by simp
  then have "persistEffect ?x = ?x" by (simp add: persistEffect_def)
  then show "savedAccounts (disconnectEffect ev st) = savedAccounts (filterSaved st)"
    using d by simp
next
  assume "wf st"
  then show "snapshot (snd (restoreEffect (initialState (Some (JSON_stringify (snapshot st))) sid))) =
        map (\<lambda>e. (fst e, (snd e)\<lparr>signer := None, sign := None\<rparr>)) (snapshot st)"
    using snapshot_reload [of st sid] by (simp add: JSON_stringify_account_def)
qed

text \<open>
  Claim C2 as worded fails for \<open>clearAccounts\<close>: the map changes, and afterwards the
  slot is absent, where the serialization of the new snapshot would be the empty array.
\<close>

theorem clear_removes_saved_accounts:
  "accounts state_alice_bob \<noteq> accounts (clearAccounts state_alice_bob) \<and>
   savedAccounts (clearAccounts state_alice_bob) = None \<and>
   JSON_stringify (snapshot (clearAccounts state_alice_bob)) = Entries []"
  by (simp add: clearAccounts_def state_alice_bob_def persistEffect_def setSelectedAccountId_def
      snapshot_def JSON_stringify_def)


lemma state_ethereum_eval:
  "state_ethereum =
     \<lparr>heap = [ethereumAccount ''0xA'' (Some (Num (3 / 2)))], accounts = [(''mirror:0xA'', 0)],
      selectedAccountId = 0,
      savedAccounts = Some (Entries [(''mirror:0xA'', ethereumAccount ''0xA'' (Some (Num (3 / 2))))]),
      savedId = None, console = [], alerts = []\<rparr>"
  by code_simp

lemma state_ethereum_resync:
  "step (UpdateEthereumWallet (env_example oracle_ok (Some ''0xA'') [])) state_ethereum =
     \<lparr>heap = [ethereumAccount ''0xA'' (Some (Num (3 / 2))), ethereumAccount ''0xA'' (Some (Num (3 / 2)))],
      accounts = [(''mirror:0xA'', 1)], selectedAccountId = 0,
      savedAccounts = Some (Entries [(''mirror:0xA'', ethereumAccount ''0xA'' (Some (Num (3 / 2))))]),
      savedId = None, console = [], alerts = []\<rparr>"
  by code_simp

lemma state_ethereum_disconnect:
  "disconnectEffect (env_example oracle_ok None []) state_ethereum =
     \<lparr>heap = [ethereumAccount ''0xA'' (Some (Num (3 / 2)))], accounts = [],
      selectedAccountId = 0, savedAccounts = Some (Entries []),
      savedId = None, console = [], alerts = []\<rparr>"
  by code_simp

theorem accounts_persisted_after_mutation_witness:
  "wf state_ethereum \<and>
   accounts (step (UpdateEthereumWallet (env_example oracle_ok (Some ''0xA'') [])) state_ethereum)
     \<noteq> [] \<and>
   savedAccounts
     (step (UpdateEthereumWallet (env_example oracle_ok (Some ''0xA'') [])) state_ethereum) =
     Some (JSON_stringify
       (snapshot (step (UpdateEthereumWallet (env_example oracle_ok (Some ''0xA'') []))
                    state_ethereum))) \<and>
   useAccount_address (env_example oracle_ok None []) = None \<and>
   accounts (disconnectEffect (env_example oracle_ok None []) state_ethereum) = [] \<and>
   savedAccounts (disconnectEffect (env_example oracle_ok None []) state_ethereum) =
     Some (Entries []) \<and>
   snapshot (snd (restoreEffect
                    (initialState (Some (JSON_stringify (snapshot state_ethereum))) None))) =
     [(''mirror:0xA'', ethereumAccount ''0xA'' (Some (Num (3 / 2))))]"
proof -
  let ?e = "UpdateEthereumWallet (env_example oracle_ok (Some ''0xA'') [])"
  let ?ev = "env_example oracle_ok None []"
  have w: "wf state_ethereum" by (simp add: state_ethereum_eval wf_def)
  have n: "useAccount_address ?ev = None" by (simp add: env_example_def)
  have h: "heap (step ?e state_ethereum) \<noteq> heap state_ethereum"
    unfolding state_ethereum_resync by (simp add: state_ethereum_eval)
  have a: "accounts (step ?e state_ethereum) \<noteq> []"
    unfolding state_ethereum_resync by simp
  have d: "accounts (disconnectEffect ?ev state_ethereum) = []"
    by (simp add: state_ethereum_disconnect)
  have f: "savedAccounts (filterSaved state_ethereum) = Some (Entries [])"
    by (simp add: state_ethereum_eval filterSaved_def falsy_def JSON_parse_def
        ethereumAccount_def)
  have s: "map (\<lambda>e. (fst e, (snd e)\<lparr>signer := None, sign := None\<rparr>)) (snapshot state_ethereum) =
        [(''mirror:0xA'', ethereumAccount ''0xA'' (Some (Num (3 / 2))))]"
    by (simp add: state_ethereum_eval snapshot_def ethereumAccount_def)
  from accounts_persisted_after_mutation [of ?e state_ethereum ?ev None] w n h a d f s
  show ?thesis by simp
qed


subsection \<open>Writing a record\<close>

lemma snapshot_updateEthereumWallet:
  assumes "wf st" and "sdk ev = Some bg" and "useAccount_address ev = Some a"
    and "bg (substrateOrMirrorIfEthereumNormalized ev a) = Inr resp"
  shows "snapshot (snd (updateEthereumWallet ev st)) =
         Map_set (snapshot st) (substrateOrMirrorIfEthereumNormalized ev a)
           (ethereumAccount a (Some (computeBalance resp)))"
  using updateEthereumWallet_success [OF assms(2,3,4), of st] snapshot_write [OF assms(1)]
  by simp

lemma snapshot_setPolkadot:
  assumes "wf st" and "sdk ev = Some bg" and "connectWallet ev w = Inr pa"
    and "distinct (map fst pa)" and "\<And>e. e \<in> set pa \<Longrightarrow> \<exists>r. bg (fst e) = Inr r"
  shows "snapshot (snd (setPolkadotAccountsWithBalance ev w st)) =
         foldl (\<lambda>m e. Map_set m (fst e) (snd e)) (snapshot st) (map (withBalance bg) pa)"
proof (cases "pa = []")
  case True
  then show ?thesis using assms(2,3)
    by (simp add: setPolkadotAccountsWithBalance_def snapshot_def)
next
  case False
  have d: "distinct (map fst ([] @ pa))" using assms(4) by simp
  have "setPolkadot_loop bg pa ([] @ pa) = Inr ([] @ map (withBalance bg) pa)"
    using d assms(5) by (rule setPolkadot_loop_ok)
  then have l: "setPolkadot_loop bg pa pa = Inr (map (withBalance bg) pa)" by simp
  obtain es h where a: "alloc_entries (heap st) (map (withBalance bg) pa) = (es, h)"
    by (cases "alloc_entries (heap st) (map (withBalance bg) pa)")
  have "setPolkadotAccountsWithBalance ev w st =
        (Resolved, persistEffect (st\<lparr>heap := h, accounts := new_Map (accounts st @ es)\<rparr>))"
    using assms(2,3) False l a by (simp add: setPolkadotAccountsWithBalance_def)
  then show ?thesis using wf_merge(2) [OF assms(1) a] by simp
qed

lemma map_of_withBalance:
  assumes "distinct (map fst pa)"
  shows "map_of (rev (map (withBalance bg) pa)) k =
         (case map_of pa k of None \<Rightarrow> None | Some acc \<Rightarrow> Some (snd (withBalance bg (k, acc))))"
proof (cases "map_of pa k")
  case None
  then have "k \<notin> fst ` set pa" by (simp add: map_of_eq_None_iff)
  then have "k \<notin> fst ` set (rev (map (withBalance bg) pa))"
    by (force simp: withBalance_def)
  then have "map_of (rev (map (withBalance bg) pa)) k = None"
    by (simp only: map_of_eq_None_iff not_False_eq_True)
  then show ?thesis using None by simp
next
  case (Some acc)
  then have m: "(k, acc) \<in> set pa" by (rule map_of_SomeD)
  have "map fst (rev (map (withBalance bg) pa)) = rev (map fst pa)"
    by (simp add: rev_map comp_def withBalance_def)
  then have "distinct (map fst (rev (map (withBalance bg) pa)))" using assms by simp
  moreover have "(k, snd (withBalance bg (k, acc))) \<in> set (rev (map (withBalance bg) pa))"
    using m by (force simp: withBalance_def)
  ultimately have "map_of (rev (map (withBalance bg) pa)) k = Some (snd (withBalance bg (k, acc)))"
    by (rule map_of_is_SomeI)
  then show ?thesis using Some by simp
qed

lemma write_replaces_record:
  assumes "wf st" and "sdk ev = Some bg"
  shows
    "(\<forall>a resp.
        useAccount_address ev = Some a \<and>
        bg (substrateOrMirrorIfEthereumNormalized ev a) = Inr resp \<longrightarrow>
        Map_get (snapshot (snd (updateEthereumWallet ev st)))
          (substrateOrMirrorIfEthereumNormalized ev a) =
          Some \<lparr>address = a, signerType = Ethereum, name = [], signer = None,
                normalizedAddress = [], sign = None, walletType = None,
                balance = Some (computeBalance resp)\<rparr> \<and>
        (\<forall>k. k \<noteq> substrateOrMirrorIfEthereumNormalized ev a \<longrightarrow>
           Map_get (snapshot (snd (updateEthereumWallet ev st))) k = Map_get (snapshot st) k) \<and>
        (substrateOrMirrorIfEthereumNormalized ev a \<in> fst ` set (snapshot st) \<longrightarrow>
           map fst (snapshot (snd (updateEthereumWallet ev st))) = map fst (snapshot st))) \<and>
     (\<forall>w pa.
        connectWallet ev w = Inr pa \<and> distinct (map fst pa) \<and>
        (\<forall>e \<in> set pa. \<exists>r. bg (fst e) = Inr r) \<longrightarrow>
        (\<forall>k acc r. (k, acc) \<in> set pa \<and> bg k = Inr r \<longrightarrow>
           Map_get (snapshot (snd (setPolkadotAccountsWithBalance ev w st))) k =
             Some (acc\<lparr>signerType := Polkadot, balance := Some (computeBalance r)\<rparr>)) \<and>
        (\<forall>k. k \<notin> fst ` set pa \<longrightarrow>
           Map_get (snapshot (snd (setPolkadotAccountsWithBalance ev w st))) k =
             Map_get (snapshot st) k))"
proof (intro conjI allI impI)
  fix a resp
  assume h: "useAccount_address ev = Some a \<and>
        bg (substrateOrMirrorIfEthereumNormalized ev a) = Inr resp"
  let ?k = "substrateOrMirrorIfEthereumNormalized ev a"
  have s: "snapshot (snd (updateEthereumWallet ev st)) =
           Map_set (snapshot st) ?k (ethereumAccount a (Some (computeBalance resp)))"
    using assms(1,2) conjunct1 [OF h] conjunct2 [OF h] by (rule snapshot_updateEthereumWallet)
  show "Map_get (snapshot (snd (updateEthereumWallet ev st))) ?k =
          Some \<lparr>address = a, signerType = Ethereum, name = [], signer = None,
                normalizedAddress = [], sign = None, walletType = None,
                balance = Some (computeBalance resp)\<rparr>"
    unfolding s by (simp add: Map_get_def map_of_Map_set ethereumAccount_def)
  show "Map_get (snapshot (snd (updateEthereumWallet ev st))) k = Map_get (snapshot st) k"
    if "k \<noteq> ?k" for k
    unfolding s using that by (simp add: Map_get_def map_of_Map_set)
  show "map fst (snapshot (snd (updateEthereumWallet ev st))) = map fst (snapshot st)"
    if "?k \<in> fst ` set (snapshot st)"
    unfolding s using that by (rule Map_set_old_keys)
next
  fix w pa k acc r
  assume h: "connectWallet ev w = Inr pa \<and> distinct (map fst pa) \<and>
        (\<forall>e \<in> set pa. \<exists>r. bg (fst e) = Inr r)"
    and k: "(k, acc) \<in> set pa \<and> bg k = Inr r"
  have s: "snapshot (snd (setPolkadotAccountsWithBalance ev w st)) =
         foldl (\<lambda>m e. Map_set m (fst e) (snd e)) (snapshot st) (map (withBalance bg) pa)"
    using assms(1,2) conjunct1 [OF h] conjunct1 [OF conjunct2 [OF h]]
  proof (rule snapshot_setPolkadot)
    show "\<exists>r. bg (fst e) = Inr r" if "e \<in> set pa" for e using h that by blast
  qed
  have "map_of pa k = Some acc" using h k by (simp add: map_of_is_SomeI)
  then have "map_of (rev (map (withBalance bg) pa)) k = Some (snd (withBalance bg (k, acc)))"
    using h by (simp add: map_of_withBalance)
  then show "Map_get (snapshot (snd (setPolkadotAccountsWithBalance ev w st))) k =
             Some (acc\<lparr>signerType := Polkadot, balance := Some (computeBalance r)\<rparr>)"
    unfolding s using k by (simp add: Map_get_def map_of_foldl_Map_set withBalance_def)
next
  fix w pa k
  assume h: "connectWallet ev w = Inr pa \<and> distinct (map fst pa) \<and>
        (\<forall>e \<in> set pa. \<exists>r. bg (fst e) = Inr r)"
    and k: "k \<notin> fst ` set pa"
  have s: "snapshot (snd (setPolkadotAccountsWithBalance ev w st)) =
         foldl (\<lambda>m e. Map_set m (fst e) (snd e)) (snapshot st) (map (withBalance bg) pa)"
    using assms(1,2) conjunct1 [OF h] conjunct1 [OF conjunct2 [OF h]]
  proof (rule snapshot_setPolkadot)
    show "\<exists>r. bg (fst e) = Inr r" if "e \<in> set pa" for e using h that by blast
  qed
  have "map_of pa k = None" using k by (simp add: map_of_eq_None_iff)
  then have "map_of (rev (map (withBalance bg) pa)) k = None"
    using h by (simp add: map_of_withBalance)
  then show "Map_get (snapshot (snd (setPolkadotAccountsWithBalance ev w st))) k =
             Map_get (snapshot st) k"
    unfolding s by (simp add: Map_get_def map_of_foldl_Map_set)
qed

text \<open>
  Claim C5. For every record of the registry, a write under its address whose record
  differs from the stored one in \<open>balance\<close> only, by \<open>updateEthereumWallet\<close> or by the merge
  of \<open>setPolkadotAccountsWithBalance\<close>, leaves the stored record as it was but for the
  new balance: name, walletType, normalizedAddress and signer are unchanged.
\<close>

theorem balance_refresh_keeps_other_fields:
  assumes "wf st" and "sdk ev = Some bg" and "Map_get (snapshot st) k = Some old"
  shows
    "(\<forall>a resp.
        useAccount_address ev = Some a \<and> substrateOrMirrorIfEthereumNormalized ev a = k \<and>
        bg k = Inr resp \<and>
        \<lparr>address = a, signerType = Ethereum, name = [], signer = None,
         normalizedAddress = [], sign = None, walletType = None, balance = balance old\<rparr> = old \<longrightarrow>
        (\<exists>new. Map_get (snapshot (snd (updateEthereumWallet ev st))) k = Some new \<and>
           new = old\<lparr>balance := Some (computeBalance resp)\<rparr> \<and>
           name new = name old \<and> walletType new = walletType old \<and>
           normalizedAddress new = normalizedAddress old \<and> signer new = signer old)) \<and>
     (\<forall>w pa acc r.
        connectWallet ev w = Inr pa \<and> distinct (map fst pa) \<and>
        (\<forall>e \<in> set pa. \<exists>r. bg (fst e) = Inr r) \<and> (k, acc) \<in> set pa \<and> bg k = Inr r \<and>
        acc\<lparr>signerType := Polkadot, balance := balance old\<rparr> = old \<longrightarrow>
        (\<exists>new. Map_get (snapshot (snd (setPolkadotAccountsWithBalance ev w st))) k = Some new \<and>
           new = old\<lparr>balance := Some (computeBalance r)\<rparr> \<and>
           name new = name old \<and> walletType new = walletType old \<and>
           normalizedAddress new = normalizedAddress old \<and> signer new = signer old))"
proof (intro conjI allI impI)
  fix a resp
  assume h: "useAccount_address ev = Some a \<and> substrateOrMirrorIfEthereumNormalized ev a = k \<and>
        bg k = Inr resp \<and>
        \<lparr>address = a, signerType = Ethereum, name = [], signer = None,
         normalizedAddress = [], sign = None, walletType = None, balance = balance old\<rparr> = old"
  then have a: "useAccount_address ev = Some a \<and>
      bg (substrateOrMirrorIfEthereumNormalized ev a) = Inr resp"
    by simp
  have "Map_get (snapshot (snd (updateEthereumWallet ev st)))
          (substrateOrMirrorIfEthereumNormalized ev a) =
        Some \<lparr>address = a, signerType = Ethereum, name = [], signer = None,
              normalizedAddress = [], sign = None, walletType = None,
              balance = Some (computeBalance resp)\<rparr>"
    using conjunct1 [OF write_replaces_record [OF assms(1,2)], rule_format, OF a]
    by (rule conjunct1)
  moreover have "\<lparr>address = a, signerType = Ethereum, name = [], signer = None,
              normalizedAddress = [], sign = None, walletType = None,
              balance = Some (computeBalance resp)\<rparr> =
        old\<lparr>balance := Some (computeBalance resp)\<rparr>"
    using h by (cases old) auto
  ultimately have "Map_get (snapshot (snd (updateEthereumWallet ev st))) k =
        Some (old\<lparr>balance := Some (computeBalance resp)\<rparr>)"
    using h by simp
  then show "\<exists>new. Map_get (snapshot (snd (updateEthereumWallet ev st))) k = Some new \<and>
           new = old\<lparr>balance := Some (computeBalance resp)\<rparr> \<and>
           name new = name old \<and> walletType new = walletType old \<and>
           normalizedAddress new = normalizedAddress old \<and> signer new = signer old"
    by simp
next
  fix w pa acc r
  assume h: "connectWallet ev w = Inr pa \<and> distinct (map fst pa) \<and>
        (\<forall>e \<in> set pa. \<exists>r. bg (fst e) = Inr r) \<and> (k, acc) \<in> set pa \<and> bg k = Inr r \<and>
        acc\<lparr>signerType := Polkadot, balance := balance old\<rparr> = old"
  then have c: "connectWallet ev w = Inr pa \<and> distinct (map fst pa) \<and>
        (\<forall>e \<in> set pa. \<exists>r. bg (fst e) = Inr r)"
    and m: "(k, acc) \<in> set pa \<and> bg k = Inr r"
    by simp_all
  have "Map_get (snapshot (snd (setPolkadotAccountsWithBalance ev w st))) k =
        Some (acc\<lparr>signerType := Polkadot, balance := Some (computeBalance r)\<rparr>)"
    using conjunct1 [OF conjunct2 [OF write_replaces_record [OF assms(1,2)], rule_format, OF c],
        rule_format, OF m] .
  moreover have "acc\<lparr>signerType := Polkadot, balance := Some (computeBalance r)\<rparr> =
        old\<lparr>balance := Some (computeBalance r)\<rparr>"
  proof -
    have "old\<lparr>balance := Some (computeBalance r)\<rparr> =
          (acc\<lparr>signerType := Polkadot, balance := balance old\<rparr>)
             \<lparr>balance := Some (computeBalance r)\<rparr>"
      using h by simp
    then show ?thesis by simp
  qed
  ultimately have "Map_get (snapshot (snd (setPolkadotAccountsWithBalance ev w st))) k =
        Some (old\<lparr>balance := Some (computeBalance r)\<rparr>)"
    by simp
  then show "\<exists>new. Map_get (snapshot (snd (setPolkadotAccountsWithBalance ev w st))) k = Some new \<and>
           new = old\<lparr>balance := Some (computeBalance r)\<rparr> \<and>
           name new = name old \<and> walletType new = walletType old \<and>
           normalizedAddress new = normalizedAddress old \<and> signer new = signer old"
    by simp
qed

lemma state_connected_snapshot:
  "snapshot state_connected =
     [(''mirror:0xA'', ethereumAccount ''0xA'' (Some (Num (3 / 2)))),
      (''alice'', polkadotAccount ''alice'' ''Alice'' (Some 1) (Some (3 / 2))),
      (''bob'', polkadotAccount ''bob'' ''Bob'' (Some 2) (Some (3 / 2)))]"
  by code_simp

lemma wf_state_connected: "wf state_connected"
  unfolding state_connected_def by (rule wf_run [OF wf_initialState])

lemma computeBalance_two:
  "computeBalance \<lparr>available = 2000000000000000000, decimals = 18\<rparr> = Num 2"
  by code_simp


theorem balance_refresh_keeps_other_fields_witness:
  "wf state_connected \<and>
   sdk (env_example oracle_two (Some ''0xA'') wallet_alice_bob) = Some oracle_two \<and>
   Map_get (snapshot state_connected) ''mirror:0xA'' =
     Some (ethereumAccount ''0xA'' (Some (Num (3 / 2)))) \<and>
   Map_get (snapshot (snd (updateEthereumWallet
                             (env_example oracle_two (Some ''0xA'') wallet_alice_bob)
                             state_connected))) ''mirror:0xA'' =
     Some (ethereumAccount ''0xA'' (Some (Num 2))) \<and>
   Map_get (snapshot state_connected) ''alice'' =
     Some (polkadotAccount ''alice'' ''Alice'' (Some 1) (Some (3 / 2))) \<and>
   Map_get (snapshot (snd (setPolkadotAccountsWithBalance
                             (env_example oracle_two (Some ''0xA'') wallet_alice_bob)
                             ''polkadot-js'' state_connected))) ''alice'' =
     Some (polkadotAccount ''alice'' ''Alice'' (Some 1) (Some 2))"
proof -
  let ?ev = "env_example oracle_two (Some ''0xA'') wallet_alice_bob"
  let ?resp = "\<lparr>available = 2000000000000000000, decimals = 18\<rparr>"
  let ?eth = "ethereumAccount ''0xA'' (Some (Num (3 / 2)))"
  let ?alice = "polkadotAccount ''alice'' ''Alice'' (Some 1) (Some (3 / 2))"
  have h1: "wf state_connected" by (rule wf_state_connected)
  have h2: "sdk ?ev = Some oracle_two" by (simp add: env_example_def)
  have e0: "Map_get (snapshot state_connected) ''mirror:0xA'' = Some ?eth"
    by (simp add: state_connected_snapshot Map_get_def)
  have p0: "Map_get (snapshot state_connected) ''alice'' = Some ?alice"
    by (simp add: state_connected_snapshot Map_get_def)
  have e1: "useAccount_address ?ev = Some ''0xA'' \<and>
        substrateOrMirrorIfEthereumNormalized ?ev ''0xA'' = ''mirror:0xA'' \<and>
        oracle_two ''mirror:0xA'' = Inr ?resp \<and>
        \<lparr>address = ''0xA'', signerType = Ethereum, name = [], signer = None,
         normalizedAddress = [], sign = None, walletType = None, balance = balance ?eth\<rparr> = ?eth"
    by (simp add: env_example_def oracle_two_def ethereumAccount_def)
  have p1: "connectWallet ?ev ''polkadot-js'' = Inr wallet_alice_bob \<and>
        distinct (map fst wallet_alice_bob) \<and>
        (\<forall>e \<in> set wallet_alice_bob. \<exists>r. oracle_two (fst e) = Inr r) \<and>
        (''alice'', polkadotAccount ''alice'' ''Alice'' (Some 1) None) \<in> set wallet_alice_bob \<and>
        oracle_two ''alice'' = Inr ?resp \<and>
        (polkadotAccount ''alice'' ''Alice'' (Some 1) None)
          \<lparr>signerType := Polkadot, balance := balance ?alice\<rparr> = ?alice"
    by (simp add: env_example_def oracle_two_def wallet_alice_bob_def polkadotAccount_def)
  from conjunct1 [OF balance_refresh_keeps_other_fields [OF h1 h2 e0], rule_format, OF e1]
  have e2: "Map_get (snapshot (snd (updateEthereumWallet ?ev state_connected))) ''mirror:0xA'' =
        Some (?eth\<lparr>balance := Some (computeBalance ?resp)\<rparr>)"
    by blast
  from conjunct2 [OF balance_refresh_keeps_other_fields [OF h1 h2 p0], rule_format, OF p1]
  have p2: "Map_get (snapshot (snd (setPolkadotAccountsWithBalance ?ev ''polkadot-js''
                                      state_connected))) ''alice'' =
        Some (?alice\<lparr>balance := Some (computeBalance ?resp)\<rparr>)"
    by blast
  show ?thesis
    using h1 h2 e0 p0 e2 p2
    by (simp add: computeBalance_two ethereumAccount_def polkadotAccount_def)
qed

subsection \<open>The stored balance\<close>

lemma reinitialize_refreshed_record:
  assumes "wf st" and "sdk ev = Some bg" and "(k, r) \<in> set (accounts st)"
    and "signerType (heap st ! r) = Polkadot"
    and "getAccounts ev (walletType (heap st ! r)) = Inr wa"
    and "Map_get wa (normalizedAddress (heap st ! r)) = Some w" and "bg k = Inr resp"
  shows "Map_get (snapshot (snd (reinitializePolkadotAccountsWithBalance ev st))) k =
         Some ((heap st ! r)\<lparr>signer := signer w, balance := Some (computeBalance resp)\<rparr>)"
proof -
  have "map_of (map (\<lambda>e. (fst e, refreshed ev bg (fst e) (snd e))) (snapshot st)) k =
        Some (refreshed ev bg k (heap st ! r))"
    using wfD(1) [OF assms(1)] in_snapshot [OF assms(3)] by (intro map_of_map_entry) simp_all
  moreover have "refreshed ev bg k (heap st ! r) =
        (heap st ! r)\<lparr>signer := signer w, balance := Some (computeBalance resp)\<rparr>"
    using assms(4-7) by (simp add: refreshed_def)
  ultimately show ?thesis
    by (simp add: snapshot_reinitialize [OF assms(1,2)] Map_get_def)
qed

text \<open>
  Claim C9. The balance that \<open>updateEthereumWallet\<close>, \<open>setPolkadotAccountsWithBalance\<close>
  and \<open>reinitializePolkadotAccountsWithBalance\<close> store for an account is the binary64
  quotient of \<open>Number(available)\<close> by \<open>Math.pow(10, decimals)\<close>, both taken from the answer
  of that account's own fetch. Where the two operands and their quotient are binary64
  values the balance is the quotient itself; for \<open>1500000000000000000\<close> and 18 it is
  \<open>3 / 2\<close>.
\<close>

theorem stored_balance_is_binary64_quotient:
  assumes "wf st" and "sdk ev = Some bg"
  shows
    "(\<forall>a resp.
        useAccount_address ev = Some a \<and>
        bg (substrateOrMirrorIfEthereumNormalized ev a) = Inr resp \<longrightarrow>
        (\<exists>new. Map_get (snapshot (snd (updateEthereumWallet ev st)))
                  (substrateOrMirrorIfEthereumNormalized ev a) = Some new \<and>
           balance new =
             Some (divide64 (Number (available resp)) (Math_pow10 (decimals resp))))) \<and>
     (\<forall>w pa k acc resp.
        connectWallet ev w = Inr pa \<and> distinct (map fst pa) \<and>
        (\<forall>e \<in> set pa. \<exists>r. bg (fst e) = Inr r) \<and> (k, acc) \<in> set pa \<and> bg k = Inr resp \<longrightarrow>
        (\<exists>new. Map_get (snapshot (snd (setPolkadotAccountsWithBalance ev w st))) k = Some new \<and>
           balance new =
             Some (divide64 (Number (available resp)) (Math_pow10 (decimals resp))))) \<and>
     (\<forall>k r wa w resp.
        (k, r) \<in> set (accounts st) \<and> signerType (heap st ! r) = Polkadot \<and>
        getAccounts ev (walletType (heap st ! r)) = Inr wa \<and>
        Map_get wa (normalizedAddress (heap st ! r)) = Some w \<and> bg k = Inr resp \<longrightarrow>
        (\<exists>new. Map_get (snapshot (snd (reinitializePolkadotAccountsWithBalance ev st))) k =
                  Some new \<and>
           balance new =
             Some (divide64 (Number (available resp)) (Math_pow10 (decimals resp))))) \<and>
     (\<forall>a d.
        round64 (of_int a) = Num (of_int a) \<and> round64 (10 ^ d) = Num (10 ^ d) \<and>
        round64 (of_int a / 10 ^ d) = Num (of_int a / 10 ^ d) \<longrightarrow>
        divide64 (Number a) (Math_pow10 d) = Num (of_int a / 10 ^ d)) \<and>
     divide64 (Number 1500000000000000000) (Math_pow10 18) = Num (3 / 2)"
proof (intro conjI allI impI)
  fix a resp
  assume h: "useAccount_address ev = Some a \<and>
        bg (substrateOrMirrorIfEthereumNormalized ev a) = Inr resp"
  have "Map_get (snapshot (snd (updateEthereumWallet ev st)))
          (substrateOrMirrorIfEthereumNormalized ev a) =
        Some \<lparr>address = a, signerType = Ethereum, name = [], signer = None,
              normalizedAddress = [], sign = None, walletType = None,
              balance = Some (computeBalance resp)\<rparr>"
    using conjunct1 [OF write_replaces_record [OF assms], rule_format, OF h]
    by (rule conjunct1)
  then show "\<exists>new. Map_get (snapshot (snd (updateEthereumWallet ev st)))
                  (substrateOrMirrorIfEthereumNormalized ev a) = Some new \<and>
           balance new =
             Some (divide64 (Number (available resp)) (Math_pow10 (decimals resp)))"
    by (simp add: computeBalance_def)
next
  fix w pa k acc resp
  assume h: "connectWallet ev w = Inr pa \<and> distinct (map fst pa) \<and>
        (\<forall>e \<in> set pa. \<exists>r. bg (fst e) = Inr r) \<and> (k, acc) \<in> set pa \<and> bg k = Inr resp"
  then have c: "connectWallet ev w = Inr pa \<and> distinct (map fst pa) \<and>
        (\<forall>e \<in> set pa. \<exists>r. bg (fst e) = Inr r)"
    and m: "(k, acc) \<in> set pa \<and> bg k = Inr resp"
    by simp_all
  have "Map_get (snapshot (snd (setPolkadotAccountsWithBalance ev w st))) k =
        Some (acc\<lparr>signerType := Polkadot, balance := Some (computeBalance resp)\<rparr>)"
    using conjunct1 [OF conjunct2 [OF write_replaces_record [OF assms], rule_format, OF c],
        rule_format, OF m] .
  then show "\<exists>new. Map_get (snapshot (snd (setPolkadotAccountsWithBalance ev w st))) k = Some new \<and>
           balance new =
             Some (divide64 (Number (available resp)) (Math_pow10 (decimals resp)))"
    by (simp add: computeBalance_def)
next
  fix k r wa w resp
  assume h: "(k, r) \<in> set (accounts st) \<and> signerType (heap st ! r) = Polkadot \<and>
        getAccounts ev (walletType (heap st ! r)) = Inr wa \<and>
        Map_get wa (normalizedAddress (heap st ! r)) = Some w \<and> bg k = Inr resp"
  have "Map_get (snapshot (snd (reinitializePolkadotAccountsWithBalance ev st))) k =
         Some ((heap st ! r)\<lparr>signer := signer w, balance := Some (computeBalance resp)\<rparr>)"
  proof (rule reinitialize_refreshed_record [OF assms])
    show "(k, r) \<in> set (accounts st)" using h by simp
    show "signerType (heap st ! r) = Polkadot" using h by simp
    show "getAccounts ev (walletType (heap st ! r)) = Inr wa" using h by simp
    show "Map_get wa (normalizedAddress (heap st ! r)) = Some w" using h by simp
    show "bg k = Inr resp" using h by simp
  qed
  then show "\<exists>new. Map_get (snapshot (snd (reinitializePolkadotAccountsWithBalance ev st))) k =
                  Some new \<and>
           balance new =
             Some (divide64 (Number (available resp)) (Math_pow10 (decimals resp)))"
    by (simp add: computeBalance_def)
next
  fix a :: int and d :: nat
  assume "round64 (of_int a) = Num (of_int a) \<and> round64 (10 ^ d) = Num (10 ^ d) \<and>
        round64 (of_int a / 10 ^ d) = Num (of_int a / 10 ^ d)"
  then show "divide64 (Number a) (Math_pow10 d) = Num (of_int a / 10 ^ d)"
    by (simp add: Number_def Math_pow10_def)
next
  show "divide64 (Number 1500000000000000000) (Math_pow10 18) = Num (3 / 2)"
    using computeBalance_example by (simp add: computeBalance_def)
qed


lemma binary64_example_operands:
  "round64 (of_int 1500000000000000000) = Num (of_int 1500000000000000000) \<and>
   round64 (10 ^ 18) = Num (10 ^ 18) \<and>
   round64 (of_int 1500000000000000000 / 10 ^ 18) = Num (of_int 1500000000000000000 / 10 ^ 18)"
  by code_simp

theorem stored_balance_is_binary64_quotient_witness:
  "wf state_alice_bob \<and>
   sdk (env_example oracle_ok (Some ''0xA'') wallet_alice_bob) = Some oracle_ok \<and>
   map_option balance
     (Map_get (snapshot (snd (updateEthereumWallet
                                (env_example oracle_ok (Some ''0xA'') wallet_alice_bob)
                                state_alice_bob))) ''mirror:0xA'') =
     Some (Some (Num (3 / 2))) \<and>
   map_option balance
     (Map_get (snapshot (snd (setPolkadotAccountsWithBalance
                                (env_example oracle_ok (Some ''0xA'') wallet_alice_bob)
                                ''polkadot-js'' state_alice_bob))) ''alice'') =
     Some (Some (Num (3 / 2))) \<and>
   map_option balance
     (Map_get (snapshot (snd (reinitializePolkadotAccountsWithBalance
                                (env_example oracle_ok (Some ''0xA'') wallet_alice_bob)
                                state_alice_bob))) ''alice'') =
     Some (Some (Num (3 / 2))) \<and>
   round64 (of_int 1500000000000000000 / 10 ^ 18) = Num (3 / 2) \<and>
   divide64 (Number 1500000000000000000) (Math_pow10 18) = Num (3 / 2)"
proof -
  let ?ev = "env_example oracle_ok (Some ''0xA'') wallet_alice_bob"
  let ?resp = "\<lparr>available = 1500000000000000000, decimals = 18\<rparr>"
  let ?q = "divide64 (Number (available ?resp)) (Math_pow10 (decimals ?resp))"
  have h1: "wf state_alice_bob" by (rule wf_state_alice_bob)
  have h2: "sdk ?ev = Some oracle_ok" by (simp add: env_example_def)
  note T = stored_balance_is_binary64_quotient [OF h1 h2]
  have q: "?q = Num (3 / 2)" using computeBalance_example by (simp add: computeBalance_def)
  have e: "useAccount_address ?ev = Some ''0xA'' \<and>
           oracle_ok (substrateOrMirrorIfEthereumNormalized ?ev ''0xA'') = Inr ?resp"
    by (simp add: env_example_def oracle_ok_def)
  have k: "substrateOrMirrorIfEthereumNormalized ?ev ''0xA'' = ''mirror:0xA''"
    by (simp add: env_example_def)
  have p: "connectWallet ?ev ''polkadot-js'' = Inr wallet_alice_bob \<and>
           distinct (map fst wallet_alice_bob) \<and>
           (\<forall>e \<in> set wallet_alice_bob. \<exists>r. oracle_ok (fst e) = Inr r) \<and>
           (''alice'', polkadotAccount ''alice'' ''Alice'' (Some 1) None) \<in> set wallet_alice_bob \<and>
           oracle_ok ''alice'' = Inr ?resp"
    by (simp add: env_example_def oracle_ok_def wallet_alice_bob_def)
  have r: "(''alice'', 0) \<in> set (accounts state_alice_bob) \<and>
           signerType (heap state_alice_bob ! 0) = Polkadot \<and>
           getAccounts ?ev (walletType (heap state_alice_bob ! 0)) = Inr wallet_alice_bob \<and>
           Map_get wallet_alice_bob (normalizedAddress (heap state_alice_bob ! 0)) =
             Some (polkadotAccount ''alice'' ''Alice'' (Some 1) None) \<and>
           oracle_ok ''alice'' = Inr ?resp"
    by (simp add: env_example_def state_alice_bob_def polkadotAccount_def wallet_alice_bob_def
        Map_get_def oracle_ok_def)
  from conjunct1 [OF T, rule_format, OF e]
  have e': "map_option balance
     (Map_get (snapshot (snd (updateEthereumWallet ?ev state_alice_bob)))
        (substrateOrMirrorIfEthereumNormalized ?ev ''0xA'')) = Some (Some ?q)"
    by auto
  from conjunct1 [OF conjunct2 [OF T], rule_format, OF p]
  have p': "map_option balance
     (Map_get (snapshot (snd (setPolkadotAccountsWithBalance ?ev ''polkadot-js''
                                state_alice_bob))) ''alice'') = Some (Some ?q)"
    by auto
  from conjunct1 [OF conjunct2 [OF conjunct2 [OF T]], rule_format, OF r]
  have r': "map_option balance
     (Map_get (snapshot (snd (reinitializePolkadotAccountsWithBalance ?ev state_alice_bob)))
        ''alice'') = Some (Some ?q)"
    by auto
  from conjunct1 [OF conjunct2 [OF conjunct2 [OF conjunct2 [OF T]]], rule_format,
      OF binary64_example_operands]
  have x: "divide64 (Number 1500000000000000000) (Math_pow10 18) =
           Num (of_int 1500000000000000000 / 10 ^ 18)" .
  have y: "(of_int 1500000000000000000 / 10 ^ 18 :: rat) = 3 / 2" by simp
  have z: "round64 (of_int 1500000000000000000 / 10 ^ 18) = Num (3 / 2)"
    using binary64_example_operands y by simp
  show ?thesis using h1 h2 e' p' r' x y z q k by simp
qed

end
